theory Spec2Isabelle
  imports Main "HOL-Library.AList"
begin

section \<open>Errors\<close>

text \<open>
  Source positions (\<open>Origin(code, start, end)\<close>) and the exceptions the code can raise.
  \<open>PatsyError\<close> carries a message and an origin; \<open>AssertionError\<close> is a failed
  \<open>assert\<close>; \<open>NameError\<close> is the evaluation of an unbound variable; \<open>KeyError\<close>
  and \<open>IndexError\<close> are failed lookups in a dict and in a list; the last three are
  raised by the evaluation of an expression.
\<close>

type_synonym origin = "string \<times> nat \<times> nat"

datatype py_error =
    PatsyError string origin
  | AssertionError
  | NameError string
  | KeyError string
  | IndexError
  | SyntaxError
  | TypeError
  | AttributeError string

section \<open>VarLookupDict\<close>

text \<open>
  A Python dict is a finite map.  Dict objects are mutable and shared by reference, so
  they live in a store: a list of dicts, the address of a dict being its index.
  \<open>VarLookupDict.__init__\<close> allocates a new empty dict and keeps the addresses
  \<open>[{}] + list(dicts)\<close>.
\<close>

type_synonym ('k, 'v) dict = "'k \<rightharpoonup> 'v"
type_synonym ('k, 'v) dict_store = "('k, 'v) dict list"

record VarLookupDict =
  dicts :: "nat list"

definition VarLookupDict_init ::
  "('k, 'v) dict_store \<Rightarrow> nat list \<Rightarrow> VarLookupDict \<times> ('k, 'v) dict_store" where
  "VarLookupDict_init h ds = (\<lparr>dicts = length h # ds\<rparr>, h @ [Map.empty])"

text \<open>The loop of \<open>__getitem__\<close> over the layers, front to back.\<close>

fun lookup_layers :: "('k, 'v) dict list \<Rightarrow> 'k \<Rightarrow> 'v option" where
  "lookup_layers [] key = None"
| "lookup_layers (d # ds) key =
     (case d key of Some v \<Rightarrow> Some v | None \<Rightarrow> lookup_layers ds key)"

definition VarLookupDict_getitem ::
  "(string, 'v) dict_store \<Rightarrow> VarLookupDict \<Rightarrow> string \<Rightarrow> py_error + 'v" where
  "VarLookupDict_getitem h self key =
     (case lookup_layers (map (\<lambda>a. h ! a) (dicts self)) key of
        Some v \<Rightarrow> Inr v
      | None \<Rightarrow> Inl (KeyError key))"

definition VarLookupDict_setitem ::
  "(string, 'v) dict_store \<Rightarrow> VarLookupDict \<Rightarrow> string \<Rightarrow> 'v \<Rightarrow> (string, 'v) dict_store" where
  "VarLookupDict_setitem h self key v =
     (let a = hd (dicts self) in h[a := (h ! a)(key \<mapsto> v)])"

definition VarLookupDict_contains ::
  "(string, 'v) dict_store \<Rightarrow> VarLookupDict \<Rightarrow> string \<Rightarrow> bool" where
  "VarLookupDict_contains h self key =
     (case VarLookupDict_getitem h self key of Inl e \<Rightarrow> False | Inr v \<Rightarrow> True)"

definition VarLookupDict_get ::
  "(string, 'v) dict_store \<Rightarrow> VarLookupDict \<Rightarrow> string \<Rightarrow> 'v option" where
  "VarLookupDict_get h self key =
     (case VarLookupDict_getitem h self key of Inl e \<Rightarrow> None | Inr v \<Rightarrow> Some v)"

text \<open>
  The state of a \<open>VarLookupDict\<close> at any time, in a store \<open>h\<close>: its \<open>_dicts\<close> are the
  address of the internal zeroth dict followed by the addresses \<open>ds\<close> the constructor
  was given; all of them are addresses of the store, and the zeroth dict, allocated
  by the constructor, is none of the given ones.  \<open>test_d1\<close> and \<open>test_d2\<close> are the two
  dicts of \<open>test_VarLookupDict\<close>.
\<close>

definition VarLookupDict_wf :: "('k, 'v) dict_store \<Rightarrow> VarLookupDict \<Rightarrow> nat list \<Rightarrow> bool" where
  "VarLookupDict_wf h self ds =
     (dicts self \<noteq> [] \<and> tl (dicts self) = ds
      \<and> hd (dicts self) < length h \<and> hd (dicts self) \<notin> set ds
      \<and> list_all (\<lambda>a. a < length h) ds)"

definition test_d1 :: "(string, int) dict" where
  "test_d1 = [''a'' \<mapsto> 1]"

definition test_d2 :: "(string, int) dict" where
  "test_d2 = [''a'' \<mapsto> 2, ''b'' \<mapsto> 3]"

section \<open>Tokens and the annotator\<close>

text \<open>
  A token is the triple \<open>(token_type, token, origin)\<close> that \<open>python_tokenize\<close>
  yields.  \<open>python_tokenize\<close> lives in \<open>patsy.tokens\<close>; the functions below take
  it as the parameter \<open>tk\<close>.  It is a generator: it yields finitely many tokens and then
  either stops or raises a \<open>PatsyError\<close>.  A token stream is therefore the list of the
  tokens yielded, and the message and origin of the \<open>PatsyError\<close> raised after them,
  if any.
\<close>

datatype token_type = NAME | NUMBER | STRING | OP

type_synonym token = "token_type \<times> string \<times> origin"
type_synonym stream_failure = "(string \<times> origin) option"
type_synonym tokenizer = "string \<Rightarrow> token list \<times> stream_failure"

record token_props =
  bare_ref :: bool
  bare_funcall :: bool

type_synonym annotated_token = "token_type \<times> string \<times> origin \<times> token_props"

definition tok_type :: "token \<Rightarrow> token_type" where
  "tok_type t = fst t"

definition tok_text :: "token \<Rightarrow> string" where
  "tok_text t = fst (snd t)"

definition tok_origin :: "token \<Rightarrow> origin" where
  "tok_origin t = snd (snd t)"

definition strip_origin :: "token \<Rightarrow> token_type \<times> string" where
  "strip_origin t = (fst t, fst (snd t))"

definition atok_type :: "annotated_token \<Rightarrow> token_type" where
  "atok_type t = fst t"

definition atok_text :: "annotated_token \<Rightarrow> string" where
  "atok_text t = fst (snd t)"

definition atok_origin :: "annotated_token \<Rightarrow> origin" where
  "atok_origin t = fst (snd (snd t))"

definition atok_props :: "annotated_token \<Rightarrow> token_props" where
  "atok_props t = snd (snd (snd t))"

definition raise_failure :: "stream_failure \<Rightarrow> 'a \<Rightarrow> py_error + 'a" where
  "raise_failure err x = (case err of Some (msg, orig) \<Rightarrow> Inl (PatsyError msg orig) | None \<Rightarrow> Inr x)"

text \<open>
  Modelled from the spec: \<open>PushbackAdapter\<close> of \<open>patsy.util\<close> is not among the sources.
  The spec gives the annotator a lazy sequence with one token of lookahead: here
  \<open>it.has_more()\<close> says whether a token follows the current one, and \<open>it.peek()\<close> is
  that token, which stays in the stream.

  The loop of \<open>annotated_tokens\<close> over the stream \<open>it\<close>.  \<open>it.has_more()\<close> is
  evaluated only when \<open>bare_ref\<close> is true (Python's \<open>and\<close>); it pulls the next item of
  the tokenizer, so when the tokenizer raises at that point the exception leaves the
  generator before the current token is yielded.
\<close>

fun annotate ::
  "bool \<Rightarrow> token list \<Rightarrow> stream_failure \<Rightarrow> annotated_token list \<times> stream_failure" where
  "annotate prev_was_dot [] err = ([], err)"
| "annotate prev_was_dot ((token_type, token, origin) # rest) err =
     (let b_ref = (\<not> prev_was_dot \<and> token_type = NAME) in
      if b_ref \<and> rest = [] \<and> err \<noteq> None then ([], err)
      else
        let b_funcall = (b_ref \<and> rest \<noteq> [] \<and> tok_text (hd rest) = ''('');
            props = \<lparr>bare_ref = b_ref, bare_funcall = b_funcall\<rparr>;
            (out, e) = annotate (token = ''.'') rest err
        in ((token_type, token, origin, props) # out, e))"

definition annotated_tokens :: "tokenizer \<Rightarrow> string \<Rightarrow> annotated_token list \<times> stream_failure" where
  "annotated_tokens tk code = (case tk code of (toks, err) \<Rightarrow> annotate False toks err)"

text \<open>
  \<open>has_bare_variable_reference\<close>: \<open>names\<close> is any container supporting \<open>in\<close> (a dict
  or a set), modelled by the set of its members.  The function returns at the first
  match, before the rest of the stream is pulled.
\<close>

fun has_ref_loop :: "string set \<Rightarrow> annotated_token list \<Rightarrow> bool" where
  "has_ref_loop names [] = False"
| "has_ref_loop names ((token_type, token, origin, props) # rest) =
     (if bare_ref props \<and> token \<in> names then True else has_ref_loop names rest)"

definition has_bare_variable_reference ::
  "tokenizer \<Rightarrow> string set \<Rightarrow> string \<Rightarrow> py_error + bool" where
  "has_bare_variable_reference tk names code =
     (case annotated_tokens tk code of (atoks, err) \<Rightarrow>
        if has_ref_loop names atoks then Inr True else raise_failure err False)"

text \<open>
  \<open>replace_bare_funcalls\<close>.  The replacer is any callable; the scheduler passes a
  closure that updates its enclosing state, so the replacer takes and returns a state
  \<open>'s\<close>.  \<open>pretty_untokenize\<close> (of \<open>patsy.tokens\<close>) is the parameter \<open>untok\<close>.
\<close>

type_synonym untokenizer = "(token_type \<times> string) list \<Rightarrow> string"

fun replace_loop ::
  "('s \<Rightarrow> string \<Rightarrow> string \<times> 's) \<Rightarrow> 's \<Rightarrow> annotated_token list
     \<Rightarrow> (token_type \<times> string) list \<times> 's" where
  "replace_loop replacer s [] = ([], s)"
| "replace_loop replacer s ((token_type, token, origin, props) # rest) =
     (let (token', s') =
            (if bare_ref props \<and> bare_funcall props then replacer s token else (token, s));
          (tokens, s'') = replace_loop replacer s' rest
      in ((token_type, token') # tokens, s''))"

definition replace_bare_funcalls ::
  "tokenizer \<Rightarrow> untokenizer \<Rightarrow> string \<Rightarrow> ('s \<Rightarrow> string \<Rightarrow> string \<times> 's) \<Rightarrow> 's
     \<Rightarrow> (py_error + string) \<times> 's" where
  "replace_bare_funcalls tk untok code replacer s =
     (case annotated_tokens tk code of (atoks, err) \<Rightarrow>
        (case replace_loop replacer s atoks of (tokens, s') \<Rightarrow>
           (raise_failure err (untok tokens), s')))"

text \<open>A replacer without state, as in \<open>test_replace_bare_funcalls\<close>.\<close>

definition pure_replacer :: "(string \<Rightarrow> string) \<Rightarrow> unit \<Rightarrow> string \<Rightarrow> string \<times> unit" where
  "pure_replacer r s token = (r token, s)"

text \<open>The replacer of \<open>test_replace_bare_funcalls\<close>: a dict lookup with the token as default.\<close>

definition replacer1 :: "string \<Rightarrow> string" where
  "replacer1 token =
     (case map_of [(''a'', ''b''), (''foo'', ''_internal.foo.process'')] token of
        Some n \<Rightarrow> n | None \<Rightarrow> token)"

section \<open>The call capturer\<close>

text \<open>
  \<open>_FuncallCapturer\<close>.  The field \<open>done\<close> of the source is \<open>done_c\<close> here.  A failed
  \<open>assert\<close> is \<open>Inl AssertionError\<close>.
\<close>

record FuncallCapturer =
  func :: "string list"
  tokens :: "(token_type \<times> string) list"
  paren_depth :: int
  started :: bool
  done_c :: bool

definition FuncallCapturer_init :: "token_type \<Rightarrow> string \<Rightarrow> FuncallCapturer" where
  "FuncallCapturer_init start_token_type start_token =
     \<lparr>func = [start_token], tokens = [(start_token_type, start_token)],
      paren_depth = 0, started = False, done_c = False\<rparr>"

definition finish_add :: "FuncallCapturer \<Rightarrow> py_error + FuncallCapturer" where
  "finish_add self =
     Inr (if started self \<and> paren_depth self = 0 then self\<lparr>done_c := True\<rparr> else self)"

definition add_token :: "FuncallCapturer \<Rightarrow> token_type \<Rightarrow> string \<Rightarrow> py_error + FuncallCapturer" where
  "add_token self token_type token =
     (if done_c self then Inr self
      else
        let self1 = self\<lparr>tokens := tokens self @ [(token_type, token)]\<rparr>;
            self2 = (if token \<in> set [''('', ''{'', ''['']
                     then self1\<lparr>paren_depth := paren_depth self1 + 1\<rparr> else self1);
            self3 = (if token \<in> set ['')'', ''}'', '']'']
                     then self2\<lparr>paren_depth := paren_depth self2 - 1\<rparr> else self2)
        in if \<not> paren_depth self3 \<ge> 0 then Inl AssertionError
           else if \<not> started self3 then
             (if token = ''('' then finish_add (self3\<lparr>started := True\<rparr>)
              else if \<not> (token_type = NAME \<or> token = ''.'') then Inl AssertionError
              else finish_add (self3\<lparr>func := func self3 @ [token]\<rparr>))
           else finish_add self3)"

text \<open>\<open>for capturer in capturers: capturer.add_token(token_type, token)\<close>\<close>

fun add_token_all ::
  "FuncallCapturer list \<Rightarrow> token_type \<Rightarrow> string \<Rightarrow> py_error + FuncallCapturer list" where
  "add_token_all [] token_type token = Inr []"
| "add_token_all (capturer # capturers) token_type token =
     (case add_token capturer token_type token of
        Inl e \<Rightarrow> Inl e
      | Inr capturer' \<Rightarrow>
          (case add_token_all capturers token_type token of
             Inl e \<Rightarrow> Inl e
           | Inr capturers' \<Rightarrow> Inr (capturer' # capturers')))"

fun capture_loop ::
  "string \<Rightarrow> FuncallCapturer list \<Rightarrow> annotated_token list \<Rightarrow> py_error + FuncallCapturer list" where
  "capture_loop obj_name capturers [] = Inr capturers"
| "capture_loop obj_name capturers ((token_type, token, origin, props) # rest) =
     (case add_token_all capturers token_type token of
        Inl e \<Rightarrow> Inl e
      | Inr capturers' \<Rightarrow>
          capture_loop obj_name
            (if bare_ref props \<and> token = obj_name
             then capturers' @ [FuncallCapturer_init token_type token] else capturers')
            rest)"

definition capture_obj_method_calls ::
  "tokenizer \<Rightarrow> untokenizer \<Rightarrow> string \<Rightarrow> string \<Rightarrow> py_error + (string \<times> string) list" where
  "capture_obj_method_calls tk untok obj_name code =
     (case annotated_tokens tk code of (atoks, err) \<Rightarrow>
        (case capture_loop obj_name [] atoks of
           Inl e \<Rightarrow> Inl e
         | Inr capturers \<Rightarrow>
             raise_failure err
               (map (\<lambda>capturer. (concat (func capturer), untok (tokens capturer))) capturers)))"

text \<open>
  What the capturer is specified to return, in the words of the spec.  The nesting
  depth changes by one at each of \<open>( { [\<close> and \<open>) } ]\<close>.  A capture opened at a
  reference takes the dotted path that follows (the tokens before the first \<open>(\<close>,
  which are names and dots), then that \<open>(\<close> and the tokens after it up to the first
  one at which the depth is back to zero.  \<open>refs_are_calls\<close> is the precondition that
  every bare reference to the name is followed by such a call; \<open>capture_spec\<close> lists
  the pair of every bare reference to the name, from left to right.
\<close>

definition depth_change :: "string \<Rightarrow> int" where
  "depth_change token =
     (if token \<in> set [''('', ''{'', ''[''] then 1 else 0)
       - (if token \<in> set ['')'', ''}'', '']''] then 1 else 0)"

fun balanced_extent :: "int \<Rightarrow> (token_type \<times> string) list \<Rightarrow> (token_type \<times> string) list option" where
  "balanced_extent d [] = None"
| "balanced_extent d (t # ts) =
     (if d + depth_change (snd t) = 0 then Some [t]
      else map_option ((#) t) (balanced_extent (d + depth_change (snd t)) ts))"

definition dotted_call_spec ::
  "token_type \<times> string \<Rightarrow> (token_type \<times> string) list
     \<Rightarrow> (string \<times> (token_type \<times> string) list) option" where
  "dotted_call_spec start following =
     (let path = takeWhile (\<lambda>t. snd t \<noteq> ''('') following;
          call = dropWhile (\<lambda>t. snd t \<noteq> ''('') following
      in if list_all (\<lambda>t. (fst t = NAME \<or> snd t = ''.'') \<and> depth_change (snd t) = 0) path
            \<and> call \<noteq> []
         then (case balanced_extent 1 (tl call) of
                 Some args \<Rightarrow>
                   Some (concat (snd start # map snd path), start # path @ [hd call] @ args)
               | None \<Rightarrow> None)
         else None)"

definition strip_props :: "annotated_token \<Rightarrow> token_type \<times> string" where
  "strip_props t = (fst t, fst (snd t))"

fun refs_are_calls :: "string \<Rightarrow> annotated_token list \<Rightarrow> bool" where
  "refs_are_calls obj_name [] = True"
| "refs_are_calls obj_name (t # rest) =
     ((if bare_ref (atok_props t) \<and> atok_text t = obj_name
       then dotted_call_spec (strip_props t) (map strip_props rest) \<noteq> None else True)
      \<and> refs_are_calls obj_name rest)"

fun capture_spec :: "untokenizer \<Rightarrow> string \<Rightarrow> annotated_token list \<Rightarrow> (string \<times> string) list" where
  "capture_spec untok obj_name [] = []"
| "capture_spec untok obj_name (t # rest) =
     (if bare_ref (atok_props t) \<and> atok_text t = obj_name
      then (case dotted_call_spec (strip_props t) (map strip_props rest) of
              Some (name, call) \<Rightarrow> [(name, untok call)]
            | None \<Rightarrow> [])
      else [])
     @ capture_spec untok obj_name rest"

text \<open>One capturer fed with a list of tokens: \<open>add_token\<close> for each, in order.\<close>

fun feed :: "FuncallCapturer \<Rightarrow> (token_type \<times> string) list \<Rightarrow> py_error + FuncallCapturer" where
  "feed c [] = Inr c"
| "feed c (t # ts) =
     (case add_token c (fst t) (snd t) of Inl e \<Rightarrow> Inl e | Inr c' \<Rightarrow> feed c' ts)"

section \<open>The evaluation environment and the factor\<close>

text \<open>
  Values of the namespaces: an object with the attribute
  \<open>__patsy_stateful_transform__\<close> (calling it gives a new transform object, whose
  initial state the constructor carries), a reference to a transform object in the
  object store, or any other value.  Transform objects are mutable, so they live in a
  store (a list, the address being the index).
\<close>

datatype ('o, 'd) py_value = Factory 'o | Obj nat | Data 'd

type_synonym ('o, 'd) namespace = "(string, ('o, 'd) py_value) dict"

record ('o, 'd) EvalEnvironment =
  namespaces :: "('o, 'd) namespace list"
  flags :: int

text \<open>
  Lookup in a \<open>VarLookupDict\<close> built over the given layers: the internal zeroth
  dict is empty as long as nothing is assigned.
\<close>

definition VarLookupDict_lookup :: "('k, 'v) dict list \<Rightarrow> ('k, 'v) dict" where
  "VarLookupDict_lookup layers = (\<lambda>key. lookup_layers (Map.empty # layers) key)"

text \<open>\<open>self._eval_env.namespace.get(token)\<close>\<close>

definition namespace_get :: "('o, 'd) EvalEnvironment \<Rightarrow> string \<Rightarrow> ('o, 'd) py_value option" where
  "namespace_get env token = VarLookupDict_lookup (namespaces env) token"

text \<open>
  \<open>EvalEnvironment.eval\<close>: Python's \<open>compile\<close> and \<open>eval\<close> are the parameter \<open>ev\<close>,
  which receives the flags, the expression and the lookup function of the
  \<open>VarLookupDict\<close> passed as locals.
\<close>

type_synonym ('o, 'd, 'r) evaluator = "int \<Rightarrow> string \<Rightarrow> ('o, 'd) namespace \<Rightarrow> 'r"

definition EvalEnvironment_eval ::
  "('o, 'd, 'r) evaluator \<Rightarrow> ('o, 'd) EvalEnvironment \<Rightarrow> string \<Rightarrow> ('o, 'd) namespace \<Rightarrow> 'r" where
  "EvalEnvironment_eval ev self expr inner_namespace =
     ev (flags self) expr (VarLookupDict_lookup ([inner_namespace] @ namespaces self))"

record ('o, 'd) EvalFactor =
  code :: string
  eval_env :: "('o, 'd) EvalEnvironment"
  origin :: "origin option"

text \<open>\<open>EvalFactor.__init__\<close>, with \<open>normalize_token_spacing\<close> as a parameter.\<close>

definition EvalFactor_init ::
  "(string \<Rightarrow> string) \<Rightarrow> string \<Rightarrow> ('o, 'd) EvalEnvironment \<Rightarrow> origin option \<Rightarrow> ('o, 'd) EvalFactor" where
  "EvalFactor_init normalize_token_spacing c env orig =
     \<lparr>code = normalize_token_spacing c, eval_env = env, origin = orig\<rparr>"

section \<open>The scheduler: memorize_passes_needed\<close>

text \<open>
  The dict \<open>state\<close> that \<open>memorize_passes_needed\<close> fills, with its four keys.  A Python
  dict is an association list here (a key is updated in place or appended), a Python
  set a list without duplicates; Python leaves the iteration order of both open, and
  the model iterates in list order.  \<open>state["transforms"]\<close> maps an instance name to
  its object, which is an address of the object store.
\<close>

record memorize_state =
  transforms :: "(string \<times> nat) list"
  eval_code :: string
  memorize_code :: "(string \<times> string) list"
  pass_bins :: "string list list"

text \<open>\<open>"%s" % n\<close> for a non-negative integer: its decimal digits.\<close>

definition digit_char :: "nat \<Rightarrow> char" where
  "digit_char d = char_of (48 + d)"

fun str_nat :: "nat \<Rightarrow> string" where
  "str_nat n = (if n < 10 then [digit_char n] else str_nat (n div 10) @ [digit_char (n mod 10)])"

declare str_nat.simps [simp del]

text \<open>
  The closure \<open>new_name_maker\<close>: its state is the counter \<open>i[0]\<close>, the dict
  \<open>state["transforms"]\<close> and the object store, in which the new object is allocated.
  \<open>namespace.get\<close> gives \<open>None\<close> for an unbound name, which has no attribute.
\<close>

type_synonym 'o maker_state = "nat \<times> (string \<times> nat) list \<times> 'o list"

definition new_name_maker ::
  "('o, 'd) EvalEnvironment \<Rightarrow> 'o maker_state \<Rightarrow> string \<Rightarrow> string \<times> 'o maker_state" where
  "new_name_maker env s token =
     (case s of (i, trs, heap) \<Rightarrow>
        (case namespace_get env token of
           Some (Factory init) \<Rightarrow>
             (let obj_name = ''_patsy_stobj'' @ str_nat i @ ''__'' @ token @ ''__''
              in (obj_name @ ''.transform'',
                  (i + 1, AList.update obj_name (length heap) trs, heap @ [init])))
         | _ \<Rightarrow> (token, s)))"

definition startswith :: "string \<Rightarrow> string \<Rightarrow> bool" where
  "startswith s p = (take (length p) s = p)"

text \<open>The loop that derives the memorize code of each instance from \<open>eval_code\<close>.\<close>

fun build_memorize_code ::
  "tokenizer \<Rightarrow> untokenizer \<Rightarrow> string \<Rightarrow> string list \<Rightarrow> (string \<times> string) list
     \<Rightarrow> py_error + (string \<times> string) list" where
  "build_memorize_code tk untok ecode [] mcode = Inr mcode"
| "build_memorize_code tk untok ecode (obj_name # rest) mcode =
     (case capture_obj_method_calls tk untok obj_name ecode of
        Inl e \<Rightarrow> Inl e
      | Inr transform_calls \<Rightarrow>
          if length transform_calls \<noteq> 1 then Inl AssertionError
          else
            (case hd transform_calls of (transform_call_name, transform_call_code) \<Rightarrow>
               if transform_call_name \<noteq> obj_name @ ''.transform'' then Inl AssertionError
               else if \<not> startswith transform_call_code (transform_call_name @ ''('')
               then Inl AssertionError
               else
                 build_memorize_code tk untok ecode rest
                   (AList.update obj_name
                      (obj_name @ ''.memorize_chunk''
                         @ drop (length transform_call_name) transform_call_code)
                      mcode)))"

text \<open>
  One sweep of the \<open>for obj_name in unsorted\<close> loop: the names of \<open>objs\<close> whose
  memorize code has no bare reference to another member of \<open>unsorted\<close>.
\<close>

fun fill_pass_bin ::
  "tokenizer \<Rightarrow> (string \<times> string) list \<Rightarrow> string list \<Rightarrow> string list \<Rightarrow> py_error + string list" where
  "fill_pass_bin tk mcode unsorted [] = Inr []"
| "fill_pass_bin tk mcode unsorted (obj_name # rest) =
     (let other_objs = set unsorted - {obj_name} in
      case map_of mcode obj_name of
        None \<Rightarrow> Inl (KeyError obj_name)
      | Some m \<Rightarrow>
          (case has_bare_variable_reference tk other_objs m of
             Inl e \<Rightarrow> Inl e
           | Inr found \<Rightarrow>
               (case fill_pass_bin tk mcode unsorted rest of
                  Inl e \<Rightarrow> Inl e
                | Inr pass_bin \<Rightarrow> Inr (if \<not> found then obj_name # pass_bin else pass_bin))))"

lemma fill_pass_bin_subset:
  "fill_pass_bin tk mcode unsorted objs = Inr pass_bin \<Longrightarrow> set pass_bin \<subseteq> set objs"
  by (induction objs arbitrary: pass_bin) (auto split: option.splits sum.splits if_splits)

lemma difference_update_shrinks:
  assumes "set pass_bin \<subseteq> set unsorted" and "pass_bin \<noteq> []"
  shows "length (filter (\<lambda>x. x \<notin> set pass_bin) unsorted) < length unsorted"
proof -
  from assms obtain x where "x \<in> set unsorted" and "x \<in> set pass_bin"
    by (cases pass_bin) auto
  then show ?thesis
    by (simp add: length_filter_less)
qed

text \<open>The \<open>while unsorted\<close> loop.\<close>

function sort_into_bins ::
  "tokenizer \<Rightarrow> (string \<times> string) list \<Rightarrow> string list \<Rightarrow> string list list
     \<Rightarrow> py_error + string list list" where
  "sort_into_bins tk mcode unsorted bins =
     (if unsorted = [] then Inr bins
      else
        (case fill_pass_bin tk mcode unsorted unsorted of
           Inl e \<Rightarrow> Inl e
         | Inr pass_bin \<Rightarrow>
             if pass_bin = [] then Inl AssertionError
             else sort_into_bins tk mcode
                    (filter (\<lambda>x. x \<notin> set pass_bin) unsorted) (bins @ [pass_bin])))"
  by pat_completeness auto
termination
  by (relation "measure (\<lambda>(tk, mcode, unsorted, bins). length unsorted)")
     (auto dest!: fill_pass_bin_subset intro: difference_update_shrinks)

declare sort_into_bins.simps [simp del]

text \<open>
  \<open>memorize_passes_needed\<close> takes the object store and returns, on a normal return, the
  number of passes, the filled \<open>state\<close> and the new store; an exception is \<open>Inl\<close>, and
  what was written to \<open>state\<close> before it is dropped.  In the \<open>raise PatsyError(...)\<close> of the collision check the
  arguments are evaluated first; they read the variable \<open>token\<close>, which is bound neither
  in the function nor in the module (it is the parameter of \<open>new_name_maker\<close>), so
  that evaluation raises \<open>NameError\<close>.
\<close>

definition memorize_passes_needed ::
  "tokenizer \<Rightarrow> untokenizer \<Rightarrow> ('o, 'd) EvalFactor \<Rightarrow> 'o list
     \<Rightarrow> py_error + (nat \<times> memorize_state \<times> 'o list)" where
  "memorize_passes_needed tk untok self heap =
     (case replace_bare_funcalls tk untok (code self) (new_name_maker (eval_env self)) (0, [], heap) of
        (Inl e, s) \<Rightarrow> Inl e
      | (Inr ecode, (i, trs, heap')) \<Rightarrow>
          (case has_bare_variable_reference tk (set (map fst trs)) (code self) of
             Inl e \<Rightarrow> Inl e
           | Inr True \<Rightarrow> Inl (NameError ''token'')
           | Inr False \<Rightarrow>
               (case build_memorize_code tk untok ecode (map fst trs) [] of
                  Inl e \<Rightarrow> Inl e
                | Inr mcode \<Rightarrow>
                    (case sort_into_bins tk mcode (remdups (map fst trs)) [] of
                       Inl e \<Rightarrow> Inl e
                     | Inr bins \<Rightarrow>
                         Inr (length bins,
                              \<lparr>transforms = trs, eval_code = ecode,
                               memorize_code = mcode, pass_bins = bins\<rparr>,
                              heap')))))"

section \<open>The streaming protocol\<close>

text \<open>
  Evaluation may call methods of the transform objects, which mutate them: here the
  evaluator's result is a function of the object store that returns the value (or the
  exception) and the new store.
\<close>

type_synonym ('o, 'd) effect = "'o list \<Rightarrow> (py_error + ('o, 'd) py_value) \<times> 'o list"

definition transforms_dict :: "memorize_state \<Rightarrow> ('o, 'd) namespace" where
  "transforms_dict st = map_of (map (\<lambda>(name, a). (name, Obj a)) (transforms st))"

text \<open>
  \<open>EvalFactor._eval\<close> is \<open>EvalFactor_eval_code\<close> here; \<open>which_pass\<close> is a pass number, a
  natural number, and an index beyond the last bin is an \<open>IndexError\<close>.
\<close>

definition EvalFactor_eval_code ::
  "('o, 'd, 'r) evaluator \<Rightarrow> ('o, 'd) EvalFactor \<Rightarrow> string \<Rightarrow> memorize_state
     \<Rightarrow> ('o, 'd) namespace \<Rightarrow> 'r" where
  "EvalFactor_eval_code ev self c memorize_state data =
     (let inner_namespace = VarLookupDict_lookup [data, transforms_dict memorize_state]
      in EvalEnvironment_eval ev (eval_env self) c inner_namespace)"

fun memorize_chunk_loop ::
  "('o, 'd, ('o, 'd) effect) evaluator \<Rightarrow> ('o, 'd) EvalFactor \<Rightarrow> memorize_state
     \<Rightarrow> ('o, 'd) namespace \<Rightarrow> string list \<Rightarrow> 'o list \<Rightarrow> (py_error + unit) \<times> 'o list" where
  "memorize_chunk_loop ev self st data [] heap = (Inr (), heap)"
| "memorize_chunk_loop ev self st data (obj_name # rest) heap =
     (case map_of (memorize_code st) obj_name of
        None \<Rightarrow> (Inl (KeyError obj_name), heap)
      | Some m \<Rightarrow>
          (case EvalFactor_eval_code ev self m st data heap of
             (Inl e, heap') \<Rightarrow> (Inl e, heap')
           | (Inr v, heap') \<Rightarrow> memorize_chunk_loop ev self st data rest heap'))"

definition memorize_chunk ::
  "('o, 'd, ('o, 'd) effect) evaluator \<Rightarrow> ('o, 'd) EvalFactor \<Rightarrow> memorize_state \<Rightarrow> nat
     \<Rightarrow> ('o, 'd) namespace \<Rightarrow> 'o list \<Rightarrow> (py_error + unit) \<times> 'o list" where
  "memorize_chunk ev self st which_pass data heap =
     (if which_pass < length (pass_bins st)
      then memorize_chunk_loop ev self st data (pass_bins st ! which_pass) heap
      else (Inl IndexError, heap))"

text \<open>
  \<open>memorize_finish\<close> calls the method \<open>memorize_finish\<close> of each object of the bin; the
  method is the parameter \<open>finish\<close>.
\<close>

fun memorize_finish_loop ::
  "('o \<Rightarrow> 'o) \<Rightarrow> memorize_state \<Rightarrow> string list \<Rightarrow> 'o list \<Rightarrow> (py_error + unit) \<times> 'o list" where
  "memorize_finish_loop finish st [] heap = (Inr (), heap)"
| "memorize_finish_loop finish st (obj_name # rest) heap =
     (case map_of (transforms st) obj_name of
        None \<Rightarrow> (Inl (KeyError obj_name), heap)
      | Some a \<Rightarrow> memorize_finish_loop finish st rest (heap[a := finish (heap ! a)]))"

definition memorize_finish ::
  "('o \<Rightarrow> 'o) \<Rightarrow> memorize_state \<Rightarrow> nat \<Rightarrow> 'o list \<Rightarrow> (py_error + unit) \<times> 'o list" where
  "memorize_finish finish st which_pass heap =
     (if which_pass < length (pass_bins st)
      then memorize_finish_loop finish st (pass_bins st ! which_pass) heap
      else (Inl IndexError, heap))"

definition EvalFactor_eval ::
  "('o, 'd, 'r) evaluator \<Rightarrow> ('o, 'd) EvalFactor \<Rightarrow> memorize_state \<Rightarrow> ('o, 'd) namespace \<Rightarrow> 'r" where
  "EvalFactor_eval ev self memorize_state data =
     EvalFactor_eval_code ev self (eval_code memorize_state) memorize_state data"

section \<open>A tokenizer and a normalizer for the worked examples\<close>

text \<open>
  Modelled from the spec: \<open>python_tokenize\<close>, \<open>pretty_untokenize\<close> and
  \<open>normalize_token_spacing\<close> of \<open>patsy.tokens\<close> are not among the sources.  The spec
  says of them that the tokenizer lexes an expression string (names, literals,
  operators, brackets, dot access, calls) into tokens with their origin, and that the
  normalizer reconstructs canonical source text from a token list with deterministic
  minimal spacing.  The lexer below reads one character at a time: a name is a letter
  or underscore followed by letters, digits and underscores; a number starts with a
  digit; a string runs to the matching quote; an operator is one character, or two for
  the two-character operators of Python; a comment or a stray character is an error,
  as is a string that is not closed.  The normalizer puts one space between two
  adjacent names or literals, around a binary operator and after a comma or colon,
  and none elsewhere, which is the spacing of every expected string in the tests of
  \<open>eval.py\<close>.
\<close>

datatype lex_mode = Idle | Partial token_type string nat

definition is_name_start :: "char \<Rightarrow> bool" where
  "is_name_start c =
     (c \<in> set ''abcdefghijklmnopqrstuvwxyzABCDEFGHIJKLMNOPQRSTUVWXYZ_'')"

definition is_digit :: "char \<Rightarrow> bool" where
  "is_digit c = (c \<in> set ''0123456789'')"

definition is_name_char :: "char \<Rightarrow> bool" where
  "is_name_char c = (is_name_start c \<or> is_digit c)"

definition op_chars :: "char list" where
  "op_chars = ''+-*/%&|^~<>()[]{},:.=!@;`''"

definition two_char_ops :: "string list" where
  "two_char_ops = [''**'', ''//'', ''=='', ''!='', ''<='', ''>='', ''<<'', ''>>'', ''<>'']"

definition begin_token :: "string \<Rightarrow> nat \<Rightarrow> char \<Rightarrow> (string \<times> origin) + lex_mode" where
  "begin_token src pos c =
     (if c = CHR '' '' then Inr Idle
      else if is_name_start c then Inr (Partial NAME [c] pos)
      else if is_digit c then Inr (Partial NUMBER [c] pos)
      else if c = CHR ''\"'' \<or> c = CHR 0x27 then Inr (Partial STRING [c] pos)
      else if c = CHR ''#'' then Inl (''comments are not allowed'', (src, pos, length src))
      else if c \<in> set op_chars then Inr (Partial OP [c] pos)
      else Inl (''error tokenizing input (maybe an unclosed string?)'', (src, pos, pos + 1)))"

definition emit_then_begin ::
  "string \<Rightarrow> nat \<Rightarrow> token \<Rightarrow> char \<Rightarrow> token list \<times> ((string \<times> origin) + lex_mode)" where
  "emit_then_begin src pos t c = ([t], begin_token src pos c)"

fun lex_step ::
  "string \<Rightarrow> nat \<Rightarrow> lex_mode \<Rightarrow> char \<Rightarrow> token list \<times> ((string \<times> origin) + lex_mode)" where
  "lex_step src pos Idle c = ([], begin_token src pos c)"
| "lex_step src pos (Partial NAME s st) c =
     (if is_name_char c then ([], Inr (Partial NAME (s @ [c]) st))
      else emit_then_begin src pos (NAME, s, (src, st, pos)) c)"
| "lex_step src pos (Partial NUMBER s st) c =
     (if is_name_char c \<or> c = CHR ''.'' then ([], Inr (Partial NUMBER (s @ [c]) st))
      else emit_then_begin src pos (NUMBER, s, (src, st, pos)) c)"
| "lex_step src pos (Partial STRING s st) c =
     (if c = hd s then ([(STRING, s @ [c], (src, st, pos + 1))], Inr Idle)
      else ([], Inr (Partial STRING (s @ [c]) st)))"
| "lex_step src pos (Partial OP s st) c =
     (if s @ [c] \<in> set two_char_ops then ([(OP, s @ [c], (src, st, pos + 1))], Inr Idle)
      else if s = ''.'' \<and> is_digit c then ([], Inr (Partial NUMBER (s @ [c]) st))
      else emit_then_begin src pos (OP, s, (src, st, pos)) c)"

fun lex_end :: "string \<Rightarrow> nat \<Rightarrow> lex_mode \<Rightarrow> token list \<times> stream_failure" where
  "lex_end src pos Idle = ([], None)"
| "lex_end src pos (Partial STRING s st) =
     ([], Some (''error tokenizing input (maybe an unclosed string?)'', (src, st, pos)))"
| "lex_end src pos (Partial ty s st) = ([(ty, s, (src, st, pos))], None)"

fun lex_chars :: "string \<Rightarrow> nat \<Rightarrow> lex_mode \<Rightarrow> string \<Rightarrow> token list \<times> stream_failure" where
  "lex_chars src pos mode [] = lex_end src pos mode"
| "lex_chars src pos mode (c # cs) =
     (case lex_step src pos mode c of
        (emitted, Inl failure) \<Rightarrow> (emitted, Some failure)
      | (emitted, Inr mode') \<Rightarrow>
          (case lex_chars src (pos + 1) mode' cs of (toks, err) \<Rightarrow> (emitted @ toks, err)))"

definition strip_spaces :: "string \<Rightarrow> string" where
  "strip_spaces s = rev (dropWhile (\<lambda>c. c = CHR '' '') (rev (dropWhile (\<lambda>c. c = CHR '' '') s)))"

definition python_tokenize :: tokenizer where
  "python_tokenize c =
     (let src = strip_spaces (map (\<lambda>c. if c = CHR 0x0A then CHR '' '' else c) c)
      in lex_chars src 0 Idle src)"

definition python_space_both :: "string list" where
  "python_space_both =
     [''+'', ''-'', ''*'', ''/'', ''%'', ''&'', ''^'', ''|'', ''<'', ''>'',
      ''=='', ''<>'', ''!='', ''<='', ''>='', ''<<'', ''>>'', ''**'', ''//'']"

definition python_space_before :: "string list" where
  "python_space_before = python_space_both @ [''!'', ''~'']"

definition python_space_after :: "string list" where
  "python_space_after = python_space_both @ ['','', '':'']"

fun untokenize_loop :: "bool \<Rightarrow> bool \<Rightarrow> (token_type \<times> string) list \<Rightarrow> string" where
  "untokenize_loop prev_was_space_delim prev_wants_space [] = []"
| "untokenize_loop prev_was_space_delim prev_wants_space ((token_type, token) # rest) =
     (if token_type \<in> set [NAME, NUMBER, STRING] then
        (if prev_wants_space \<or> prev_was_space_delim then '' '' else [])
          @ token @ untokenize_loop True False rest
      else
        (if prev_wants_space \<or> token \<in> set python_space_before then '' '' else [])
          @ token @ untokenize_loop False (token \<in> set python_space_after) rest)"

definition pretty_untokenize :: untokenizer where
  "pretty_untokenize typed_tokens = untokenize_loop False False typed_tokens"

definition normalize_token_spacing :: "string \<Rightarrow> string" where
  "normalize_token_spacing c = pretty_untokenize (map strip_origin (fst (python_tokenize c)))"

section \<open>The mock transform and the evaluation of expressions\<close>

text \<open>
  The values of the data: numpy arrays of integers, integers and \<open>None\<close>.
  \<open>_MockTransform\<close> of the tests adds up all memorized data and subtracts that sum
  from each datum; its fields \<open>_sum\<close>, \<open>_memorize_chunk_called\<close> and
  \<open>_memorize_finish_called\<close> are the fields of the record.  \<open>np.sum\<close> of an array is
  the sum of its elements, and an array minus a number is taken element by element.
\<close>

datatype py_data = IntV int | ArrayV "int list" | NoneV

record MockTransform =
  mock_sum :: int
  memorize_chunk_called :: nat
  memorize_finish_called :: nat

definition MockTransform_init :: MockTransform where
  "MockTransform_init = \<lparr>mock_sum = 0, memorize_chunk_called = 0, memorize_finish_called = 0\<rparr>"

definition np_sum :: "py_data \<Rightarrow> int" where
  "np_sum data = (case data of IntV k \<Rightarrow> k | ArrayV xs \<Rightarrow> sum_list xs | NoneV \<Rightarrow> 0)"

definition MockTransform_memorize_chunk :: "MockTransform \<Rightarrow> py_data \<Rightarrow> MockTransform" where
  "MockTransform_memorize_chunk self data =
     self\<lparr>memorize_chunk_called := memorize_chunk_called self + 1,
          mock_sum := mock_sum self + np_sum data\<rparr>"

definition MockTransform_memorize_finish :: "MockTransform \<Rightarrow> MockTransform" where
  "MockTransform_memorize_finish self =
     self\<lparr>memorize_finish_called := memorize_finish_called self + 1\<rparr>"

definition MockTransform_transform :: "MockTransform \<Rightarrow> py_data \<Rightarrow> py_data" where
  "MockTransform_transform self data =
     (case data of
        IntV k \<Rightarrow> IntV (k - mock_sum self)
      | ArrayV xs \<Rightarrow> ArrayV (map (\<lambda>x. x - mock_sum self) xs)
      | NoneV \<Rightarrow> NoneV)"

text \<open>
  Python's \<open>eval\<close> for the expressions that the generated code of the test consists
  of: names, integer literals, \<open>+\<close> and \<open>-\<close>, parentheses, and method calls
  \<open>target.method(arguments)\<close> on transform objects.  The text is tokenized, parsed
  by recursive descent into an expression tree, and the tree is evaluated against the
  lookup function of the namespace and the object store, operands and arguments from
  left to right.  The parser has a fuel argument that every call decreases; it is
  started with more fuel than a token list of that length can use, and anything it
  cannot parse is a \<open>SyntaxError\<close>.
\<close>

datatype expr =
    Name string
  | Num int
  | BinOp expr string expr
  | Call expr string "expr list"

type_synonym ptoks = "(token_type \<times> string) list"

definition is_tok :: "ptoks \<Rightarrow> token_type \<Rightarrow> string \<Rightarrow> bool" where
  "is_tok ts ty tx = (case ts of [] \<Rightarrow> False | t # rest \<Rightarrow> fst t = ty \<and> snd t = tx)"

definition digit_value :: "char \<Rightarrow> nat" where
  "digit_value c = of_char c - 48"

definition int_of_digits :: "string \<Rightarrow> int" where
  "int_of_digits s = int (foldl (\<lambda>n c. 10 * n + digit_value c) 0 s)"

text \<open>
  The mode says what is parsed: an expression (a term, then the rest of a sum); the
  rest of a sum after its left operand; a term (a name, a number or an expression in
  parentheses, then its trailers); the method calls that trail a term; the arguments
  of a call up to the closing parenthesis.  The result is the list of the expressions
  parsed (one, or the arguments) and the tokens that remain.
\<close>

datatype parse_mode = PExpr | PRest expr | PTerm | PTrailers expr | PArgs

fun parse :: "nat \<Rightarrow> parse_mode \<Rightarrow> ptoks \<Rightarrow> (expr list \<times> ptoks) option" where
  "parse 0 mode ts = None"
| "parse (Suc n) mode ts =
     (case mode of
        PExpr \<Rightarrow>
          (case parse n PTerm ts of
             Some ([l], ts') \<Rightarrow> parse n (PRest l) ts'
           | _ \<Rightarrow> None)
      | PRest l \<Rightarrow>
          if is_tok ts OP ''+'' \<or> is_tok ts OP ''-'' then
            (case parse n PTerm (tl ts) of
               Some ([r], ts') \<Rightarrow> parse n (PRest (BinOp l (snd (hd ts)) r)) ts'
             | _ \<Rightarrow> None)
          else Some ([l], ts)
      | PTerm \<Rightarrow>
          (case ts of
             [] \<Rightarrow> None
           | t # ts' \<Rightarrow>
               if fst t = NAME then parse n (PTrailers (Name (snd t))) ts'
               else if fst t = NUMBER \<and> list_all is_digit (snd t)
               then parse n (PTrailers (Num (int_of_digits (snd t)))) ts'
               else if t = (OP, ''('') then
                 (case parse n PExpr ts' of
                    Some ([e], ts'') \<Rightarrow>
                      if is_tok ts'' OP '')'' then parse n (PTrailers e) (tl ts'') else None
                  | _ \<Rightarrow> None)
               else None)
      | PTrailers e \<Rightarrow>
          if is_tok ts OP ''.'' \<and> is_tok (tl ts) NAME (snd (hd (tl ts)))
             \<and> is_tok (tl (tl ts)) OP ''(''
          then
            (case parse n PArgs (tl (tl (tl ts))) of
               Some (args, ts') \<Rightarrow> parse n (PTrailers (Call e (snd (hd (tl ts))) args)) ts'
             | None \<Rightarrow> None)
          else Some ([e], ts)
      | PArgs \<Rightarrow>
          if is_tok ts OP '')'' then Some ([], tl ts)
          else
            (case parse n PExpr ts of
               Some ([a], ts') \<Rightarrow>
                 if is_tok ts' OP '')'' then Some ([a], tl ts')
                 else if is_tok ts' OP '','' then
                   (case parse n PArgs (tl ts') of
                      Some (as, ts'') \<Rightarrow> if as = [] then None else Some (a # as, ts'')
                    | None \<Rightarrow> None)
                 else None
             | _ \<Rightarrow> None))"

definition binop :: "string \<Rightarrow> py_data \<Rightarrow> py_data \<Rightarrow> py_data option" where
  "binop op a b =
     (let f = (if op = ''+'' then (\<lambda>x y. x + y) else (\<lambda>x y. x - y)) in
      case (a, b) of
        (IntV x, IntV y) \<Rightarrow> Some (IntV (f x y))
      | (ArrayV xs, IntV y) \<Rightarrow> Some (ArrayV (map (\<lambda>x. f x y) xs))
      | (IntV x, ArrayV ys) \<Rightarrow> Some (ArrayV (map (\<lambda>y. f x y) ys))
      | (ArrayV xs, ArrayV ys) \<Rightarrow>
          if length xs = length ys then Some (ArrayV (map (\<lambda>(x, y). f x y) (zip xs ys))) else None
      | _ \<Rightarrow> None)"

type_synonym mock_value = "(MockTransform, py_data) py_value"

definition call_method ::
  "mock_value \<Rightarrow> string \<Rightarrow> mock_value list \<Rightarrow> MockTransform list
     \<Rightarrow> (py_error + mock_value) \<times> MockTransform list" where
  "call_method target m args heap =
     (case target of
        Obj a \<Rightarrow>
          if m = ''transform'' then
            (case args of
               [Data d] \<Rightarrow> (Inr (Data (MockTransform_transform (heap ! a) d)), heap)
             | _ \<Rightarrow> (Inl TypeError, heap))
          else if m = ''memorize_chunk'' then
            (case args of
               [Data d] \<Rightarrow> (Inr (Data NoneV), heap[a := MockTransform_memorize_chunk (heap ! a) d])
             | _ \<Rightarrow> (Inl TypeError, heap))
          else if m = ''memorize_finish'' then
            (case args of
               [] \<Rightarrow> (Inr (Data NoneV), heap[a := MockTransform_memorize_finish (heap ! a)])
             | _ \<Rightarrow> (Inl TypeError, heap))
          else (Inl (AttributeError m), heap)
      | _ \<Rightarrow> (Inl (AttributeError m), heap))"


fun eval_expr ::
  "(MockTransform, py_data) namespace \<Rightarrow> expr \<Rightarrow> MockTransform list
     \<Rightarrow> (py_error + mock_value) \<times> MockTransform list"
  and eval_args ::
  "(MockTransform, py_data) namespace \<Rightarrow> expr list \<Rightarrow> MockTransform list
     \<Rightarrow> (py_error + mock_value list) \<times> MockTransform list"
where
  "eval_expr ns (Name x) heap =
     (case ns x of None \<Rightarrow> (Inl (NameError x), heap) | Some v \<Rightarrow> (Inr v, heap))"
| "eval_expr ns (Num k) heap = (Inr (Data (IntV k)), heap)"
| "eval_expr ns (BinOp l op r) heap =
     (case eval_expr ns l heap of
        (Inl e, heap1) \<Rightarrow> (Inl e, heap1)
      | (Inr a, heap1) \<Rightarrow>
          (case eval_expr ns r heap1 of
             (Inl e, heap2) \<Rightarrow> (Inl e, heap2)
           | (Inr b, heap2) \<Rightarrow>
               (case (a, b) of
                  (Data x, Data y) \<Rightarrow>
                    (case binop op x y of
                       Some v \<Rightarrow> (Inr (Data v), heap2)
                     | None \<Rightarrow> (Inl TypeError, heap2))
                | _ \<Rightarrow> (Inl TypeError, heap2))))"
| "eval_expr ns (Call target m args) heap =
     (case eval_expr ns target heap of
        (Inl e, heap1) \<Rightarrow> (Inl e, heap1)
      | (Inr t, heap1) \<Rightarrow>
          (case eval_args ns args heap1 of
             (Inl e, heap2) \<Rightarrow> (Inl e, heap2)
           | (Inr vs, heap2) \<Rightarrow> call_method t m vs heap2))"
| "eval_args ns [] heap = (Inr [], heap)"
| "eval_args ns (a # as) heap =
     (case eval_expr ns a heap of
        (Inl e, heap1) \<Rightarrow> (Inl e, heap1)
      | (Inr v, heap1) \<Rightarrow>
          (case eval_args ns as heap1 of
             (Inl e, heap2) \<Rightarrow> (Inl e, heap2)
           | (Inr vs, heap2) \<Rightarrow> (Inr (v # vs), heap2)))"


definition python_eval ::
  "(MockTransform, py_data, (MockTransform, py_data) effect) evaluator" where
  "python_eval fl src ns heap =
     (case python_tokenize src of
        (toks, Some failure) \<Rightarrow> (Inl SyntaxError, heap)
      | (toks, None) \<Rightarrow>
          (case parse (4 * length toks + 4) PExpr (map strip_origin toks) of
             Some ([e], []) \<Rightarrow> eval_expr ns e heap
           | _ \<Rightarrow> (Inl SyntaxError, heap)))"

text \<open>
  \<open>test_EvalFactor_end_to_end\<close>: \<open>foo\<close> is the stateful transform of \<open>_MockTransform\<close>;
  the two chunks of data, and the whole data; the state the scheduler builds for
  \<open>foo(x) + foo(foo(y))\<close>; a transform object with given field values.
\<close>

definition mock_namespace :: "(MockTransform, py_data) namespace" where
  "mock_namespace = [''foo'' \<mapsto> Factory MockTransform_init]"

definition mock_factor :: "(MockTransform, py_data) EvalFactor" where
  "mock_factor =
     EvalFactor_init normalize_token_spacing ''foo(x) + foo(foo(y))''
       \<lparr>namespaces = [mock_namespace], flags = 0\<rparr> None"

definition chunk1 :: "(MockTransform, py_data) namespace" where
  "chunk1 = [''x'' \<mapsto> Data (ArrayV [1, 2]), ''y'' \<mapsto> Data (ArrayV [10, 11])]"

definition chunk2 :: "(MockTransform, py_data) namespace" where
  "chunk2 = [''x'' \<mapsto> Data (ArrayV [12, - 10]), ''y'' \<mapsto> Data (ArrayV [100, 3])]"

definition all_data :: "(MockTransform, py_data) namespace" where
  "all_data = [''x'' \<mapsto> Data (ArrayV [1, 2, 12, - 10]), ''y'' \<mapsto> Data (ArrayV [10, 11, 100, 3])]"


definition mock_state :: memorize_state where
  "mock_state =
     \<lparr>transforms =
        [(''_patsy_stobj0__foo__'', 0), (''_patsy_stobj1__foo__'', 1),
         (''_patsy_stobj2__foo__'', 2)],
      eval_code =
        ''_patsy_stobj0__foo__.transform(x) + _patsy_stobj1__foo__.transform(_patsy_stobj2__foo__.transform(y))'',
      memorize_code =
        [(''_patsy_stobj0__foo__'', ''_patsy_stobj0__foo__.memorize_chunk(x)''),
         (''_patsy_stobj1__foo__'',
          ''_patsy_stobj1__foo__.memorize_chunk(_patsy_stobj2__foo__.transform(y))''),
         (''_patsy_stobj2__foo__'', ''_patsy_stobj2__foo__.memorize_chunk(y)'')],
      pass_bins =
        [[''_patsy_stobj0__foo__'', ''_patsy_stobj2__foo__''], [''_patsy_stobj1__foo__'']]\<rparr>"

definition mock_obj :: "int \<Rightarrow> nat \<Rightarrow> nat \<Rightarrow> MockTransform" where
  "mock_obj s c f = \<lparr>mock_sum = s, memorize_chunk_called = c, memorize_finish_called = f\<rparr>"

section \<open>The factors of the tests\<close>

text \<open>
  \<open>test_EvalFactor_memorize_passes_needed\<close>: the names \<open>foo\<close>, \<open>bar\<close> and \<open>quux\<close> are bound
  to three stateful transforms, whose objects are the strings \<open>FOO-OBJ\<close>, \<open>BAR-OBJ\<close>
  and \<open>QUUX-OBJ\<close>; \<open>test_state\<close> is the state that the test expects.  The other two
  factors use the same environment: one whose code mentions a generated name, and one
  without any stateful transform.
\<close>

definition test_namespace :: "(string, unit) namespace" where
  "test_namespace =
     [''foo'' \<mapsto> Factory ''FOO-OBJ'', ''bar'' \<mapsto> Factory ''BAR-OBJ'',
      ''quux'' \<mapsto> Factory ''QUUX-OBJ'']"

definition test_factor :: "(string, unit) EvalFactor" where
  "test_factor =
     EvalFactor_init normalize_token_spacing ''foo(x) + bar(foo(y)) + quux(z, w)''
       \<lparr>namespaces = [test_namespace], flags = 0\<rparr> None"

definition test_state :: memorize_state where
  "test_state =
     \<lparr>transforms =
        [(''_patsy_stobj0__foo__'', 0), (''_patsy_stobj1__bar__'', 1),
         (''_patsy_stobj2__foo__'', 2), (''_patsy_stobj3__quux__'', 3)],
      eval_code =
        ''_patsy_stobj0__foo__.transform(x) + _patsy_stobj1__bar__.transform(_patsy_stobj2__foo__.transform(y)) + _patsy_stobj3__quux__.transform(z, w)'',
      memorize_code =
        [(''_patsy_stobj0__foo__'', ''_patsy_stobj0__foo__.memorize_chunk(x)''),
         (''_patsy_stobj1__bar__'',
          ''_patsy_stobj1__bar__.memorize_chunk(_patsy_stobj2__foo__.transform(y))''),
         (''_patsy_stobj2__foo__'', ''_patsy_stobj2__foo__.memorize_chunk(y)''),
         (''_patsy_stobj3__quux__'', ''_patsy_stobj3__quux__.memorize_chunk(z, w)'')],
      pass_bins =
        [[''_patsy_stobj0__foo__'', ''_patsy_stobj2__foo__'', ''_patsy_stobj3__quux__''],
         [''_patsy_stobj1__bar__'']]\<rparr>"

definition collision_factor :: "(string, unit) EvalFactor" where
  "collision_factor =
     EvalFactor_init normalize_token_spacing ''foo(_patsy_stobj0__foo__)''
       \<lparr>namespaces = [test_namespace], flags = 0\<rparr> None"

definition plain_factor :: "(string, unit) EvalFactor" where
  "plain_factor =
     EvalFactor_init normalize_token_spacing ''f(x)+y.g(z)''
       \<lparr>namespaces = [test_namespace], flags = 0\<rparr> None"

text \<open>
  The order of the bins, stated along the list: the memorize code of every member of
  a bin has no bare reference to another member of that bin or of the bins after it.
\<close>

fun bins_ordered :: "tokenizer \<Rightarrow> (string \<times> string) list \<Rightarrow> string list list \<Rightarrow> bool" where
  "bins_ordered tk mcode [] = True"
| "bins_ordered tk mcode (b # bs) =
     ((\<forall>obj\<in>set b. \<exists>m. map_of mcode obj = Some m
          \<and> has_bare_variable_reference tk (set (concat (b # bs)) - {obj}) m = Inr False)
      \<and> bins_ordered tk mcode bs)"

section \<open>Properties of VarLookupDict\<close>

lemma lookup_layers_map_find:
  "lookup_layers (map f ds) key =
     (case find (\<lambda>a. f a key \<noteq> None) ds of None \<Rightarrow> None | Some a \<Rightarrow> f a key)"
  by (induction ds) (auto split: option.splits)

lemma find_None_iff_all: "(find P xs = None) = (\<forall>x\<in>set xs. \<not> P x)"
  by (induction xs) auto

lemma VarLookupDict_get_fresh:
  assumes "\<forall>a\<in>set ds. a < length h" and "VarLookupDict_init h ds = (self, h1)"
  shows "VarLookupDict_get h1 self key = VarLookupDict_lookup (map (\<lambda>a. h ! a) ds) key"
proof -
  from assms(2) have self: "dicts self = length h # ds" and h1: "h1 = h @ [Map.empty]"
    by (auto simp: VarLookupDict_init_def)
  from assms(1) have layers: "map (\<lambda>a. h1 ! a) ds = map (\<lambda>a. h ! a) ds"
    by (simp add: h1 nth_append)
  have "lookup_layers (map (\<lambda>a. h1 ! a) (dicts self)) key
      = lookup_layers (Map.empty # map (\<lambda>a. h ! a) ds) key"
    by (simp add: self layers) (simp add: h1)
  then show ?thesis
    by (simp add: VarLookupDict_get_def VarLookupDict_getitem_def VarLookupDict_lookup_def
        split: option.splits)
qed

lemma VarLookupDict_after_init:
  assumes valid: "\<forall>a\<in>set ds. a < length h"
    and init: "VarLookupDict_init h ds = (self, h1)"
  shows "VarLookupDict_getitem h1 self key =
           (case find (\<lambda>a. (h ! a) key \<noteq> None) ds of
              Some a \<Rightarrow> Inr (the ((h ! a) key))
            | None \<Rightarrow> Inl (KeyError key))
       \<and> (isl (VarLookupDict_getitem h1 self key) \<longleftrightarrow> (\<forall>a\<in>set ds. (h ! a) key = None))
       \<and> VarLookupDict_getitem (VarLookupDict_setitem h1 self key v) self key = Inr v
       \<and> (\<forall>a\<in>set ds. VarLookupDict_setitem h1 self key v ! a = h ! a)"
proof -
  from init have self: "dicts self = length h # ds" and h1: "h1 = h @ [Map.empty]"
    by (auto simp: VarLookupDict_init_def)
  from valid have layers: "map (\<lambda>a. h1 ! a) ds = map (\<lambda>a. h ! a) ds"
    by (simp add: h1 nth_append)
  have L: "lookup_layers (map (\<lambda>a. h1 ! a) (dicts self)) key =
       (case find (\<lambda>a. (h ! a) key \<noteq> None) ds of None \<Rightarrow> None | Some a \<Rightarrow> (h ! a) key)"
    using lookup_layers_map_find [of "\<lambda>a. h ! a" ds key]
    by (simp add: self layers) (simp add: h1)
  have get: "VarLookupDict_getitem h1 self key =
           (case find (\<lambda>a. (h ! a) key \<noteq> None) ds of
              Some a \<Rightarrow> Inr (the ((h ! a) key))
            | None \<Rightarrow> Inl (KeyError key))"
  proof (cases "find (\<lambda>a. (h ! a) key \<noteq> None) ds")
    case None
    then show ?thesis
      unfolding VarLookupDict_getitem_def L by simp
  next
    case (Some a)
    then have "(h ! a) key \<noteq> None"
      by (auto simp: find_Some_iff)
    with Some show ?thesis
      unfolding VarLookupDict_getitem_def L by auto
  qed
  have err: "isl (VarLookupDict_getitem h1 self key) \<longleftrightarrow> (\<forall>a\<in>set ds. (h ! a) key = None)"
    unfolding get by (auto simp: find_None_iff_all find_Some_iff split: option.splits)
  have set1: "VarLookupDict_setitem h1 self key v = h @ [[key \<mapsto> v]]"
    by (simp add: VarLookupDict_setitem_def self h1)
  have assigned: "VarLookupDict_getitem (VarLookupDict_setitem h1 self key v) self key = Inr v"
    by (simp add: set1 VarLookupDict_getitem_def self)
  from valid have frame: "\<forall>a\<in>set ds. VarLookupDict_setitem h1 self key v ! a = h ! a"
    by (simp add: set1 nth_append)
  from get err assigned frame show ?thesis by blast
qed

lemma VarLookupDict_wf_init:
  assumes "\<forall>a\<in>set ds. a < length h0" and "VarLookupDict_init h0 ds = (self, h1)"
  shows "VarLookupDict_wf h1 self ds" and "h1 ! hd (dicts self) = Map.empty"
    and "\<forall>a\<in>set ds. h1 ! a = h0 ! a"
proof -
  from assms(2) have self: "dicts self = length h0 # ds" and h1: "h1 = h0 @ [Map.empty]"
    by (auto simp: VarLookupDict_init_def)
  from assms(1) show "VarLookupDict_wf h1 self ds"
    by (auto simp: VarLookupDict_wf_def self h1 list_all_iff)
  show "h1 ! hd (dicts self) = Map.empty"
    by (simp add: self h1)
  from assms(1) show "\<forall>a\<in>set ds. h1 ! a = h0 ! a"
    by (simp add: h1 nth_append)
qed

lemma VarLookupDict_getitem_any:
  "VarLookupDict_getitem h self key =
     (case find (\<lambda>a. (h ! a) key \<noteq> None) (dicts self) of
        Some a \<Rightarrow> Inr (the ((h ! a) key))
      | None \<Rightarrow> Inl (KeyError key))"
proof -
  have L: "lookup_layers (map (\<lambda>a. h ! a) (dicts self)) key =
       (case find (\<lambda>a. (h ! a) key \<noteq> None) (dicts self) of
          None \<Rightarrow> None | Some a \<Rightarrow> (h ! a) key)"
    by (rule lookup_layers_map_find)
  show ?thesis
  proof (cases "find (\<lambda>a. (h ! a) key \<noteq> None) (dicts self)")
    case None
    then show ?thesis
      unfolding VarLookupDict_getitem_def L by simp
  next
    case (Some a)
    then have "(h ! a) key \<noteq> None"
      by (auto simp: find_Some_iff)
    with Some show ?thesis
      unfolding VarLookupDict_getitem_def L by auto
  qed
qed

lemma VarLookupDict_getitem_KeyError:
  "isl (VarLookupDict_getitem h self key) \<longleftrightarrow> (\<forall>a\<in>set (dicts self). (h ! a) key = None)"
  unfolding VarLookupDict_getitem_any
  by (auto simp: find_None_iff_all find_Some_iff split: option.splits)

lemma VarLookupDict_setitem_any:
  assumes wf: "VarLookupDict_wf h self ds"
  shows "VarLookupDict_wf (VarLookupDict_setitem h self key v) self ds"
    and "VarLookupDict_getitem (VarLookupDict_setitem h self key v) self key = Inr v"
    and "\<forall>k. k \<noteq> key \<longrightarrow>
           VarLookupDict_getitem (VarLookupDict_setitem h self key v) self k
             = VarLookupDict_getitem h self k"
    and "\<forall>a. a \<noteq> hd (dicts self) \<longrightarrow> VarLookupDict_setitem h self key v ! a = h ! a"
    and "\<forall>a\<in>set ds. VarLookupDict_setitem h self key v ! a = h ! a"
    and "VarLookupDict_setitem h self key v ! hd (dicts self) = (h ! hd (dicts self))(key \<mapsto> v)"
    and "length (VarLookupDict_setitem h self key v) = length h"
proof -
  from wf obtain z where self: "dicts self = z # ds" and z: "z < length h"
    and fresh: "z \<notin> set ds" and valid: "\<forall>a\<in>set ds. a < length h"
    by (cases "dicts self") (auto simp: VarLookupDict_wf_def list_all_iff)
  let ?h' = "VarLookupDict_setitem h self key v"
  have h': "?h' = h[z := (h ! z)(key \<mapsto> v)]"
    by (simp add: VarLookupDict_setitem_def self)
  show len: "length ?h' = length h"
    by (simp add: h')
  from wf show "VarLookupDict_wf ?h' self ds"
    by (simp add: VarLookupDict_wf_def len)
  have zeroth: "?h' ! z = (h ! z)(key \<mapsto> v)"
    using z by (simp add: h')
  then show "?h' ! hd (dicts self) = (h ! hd (dicts self))(key \<mapsto> v)"
    by (simp add: self)
  have others: "?h' ! a = h ! a" if "a \<noteq> z" for a
    using that by (simp add: h')
  then show "\<forall>a. a \<noteq> hd (dicts self) \<longrightarrow> ?h' ! a = h ! a"
    by (simp add: self)
  show frame: "\<forall>a\<in>set ds. ?h' ! a = h ! a"
  proof
    fix a assume "a \<in> set ds"
    with fresh have "a \<noteq> z" by auto
    then show "?h' ! a = h ! a" by (rule others)
  qed
  then have layers: "map (\<lambda>a. ?h' ! a) ds = map (\<lambda>a. h ! a) ds"
    by simp
  have new: "map (\<lambda>a. ?h' ! a) (dicts self) = (h ! z)(key \<mapsto> v) # map (\<lambda>a. h ! a) ds"
    unfolding self list.map zeroth layers ..
  have old: "map (\<lambda>a. h ! a) (dicts self) = h ! z # map (\<lambda>a. h ! a) ds"
    unfolding self list.map ..
  show "VarLookupDict_getitem ?h' self key = Inr v"
    unfolding VarLookupDict_getitem_def new by simp
  show "\<forall>k. k \<noteq> key \<longrightarrow> VarLookupDict_getitem ?h' self k = VarLookupDict_getitem h self k"
    unfolding VarLookupDict_getitem_def new old by simp
qed

text \<open>
  Claim C10.  For every \<open>VarLookupDict\<close> constructed over a list of dicts, in every
  state it can be in (right after the constructor, or after any assignments):
  looking a key up gives the value of the first of its dicts, the internal zeroth
  dict first and then the given ones in order, that contains the key, and raises
  \<open>KeyError\<close> exactly when none contains it; right after the constructor the zeroth
  dict is empty, so that is the first of the given dicts that contains the key.
  Assigning a value to a key stores it in the zeroth dict: looking that key up
  afterwards gives the assigned value, looking any other key up gives what it gave
  before, and every dict of the store other than the zeroth, so every dict the
  constructor was given, is unchanged.
\<close>

theorem VarLookupDict_lookup_and_assignment:
  "(\<forall>(h0 :: (string, 'v) dict_store) ds self h1 key v.
      (\<forall>a\<in>set ds. a < length h0) \<and> VarLookupDict_init h0 ds = (self, h1) \<longrightarrow>
        VarLookupDict_wf h1 self ds
      \<and> h1 ! hd (dicts self) = Map.empty
      \<and> (\<forall>a\<in>set ds. h1 ! a = h0 ! a)
      \<and> VarLookupDict_getitem h1 self key =
           (case find (\<lambda>a. (h0 ! a) key \<noteq> None) ds of
              Some a \<Rightarrow> Inr (the ((h0 ! a) key))
            | None \<Rightarrow> Inl (KeyError key))
      \<and> (isl (VarLookupDict_getitem h1 self key) \<longleftrightarrow> (\<forall>a\<in>set ds. (h0 ! a) key = None))
      \<and> VarLookupDict_getitem (VarLookupDict_setitem h1 self key v) self key = Inr v
      \<and> (\<forall>a\<in>set ds. VarLookupDict_setitem h1 self key v ! a = h0 ! a))
   \<and> (\<forall>(h :: (string, 'v) dict_store) self ds key v.
        VarLookupDict_wf h self ds \<longrightarrow>
          VarLookupDict_getitem h self key =
            (case find (\<lambda>a. (h ! a) key \<noteq> None) (dicts self) of
               Some a \<Rightarrow> Inr (the ((h ! a) key))
             | None \<Rightarrow> Inl (KeyError key))
        \<and> (isl (VarLookupDict_getitem h self key) \<longleftrightarrow> (\<forall>a\<in>set (dicts self). (h ! a) key = None))
        \<and> VarLookupDict_wf (VarLookupDict_setitem h self key v) self ds
        \<and> VarLookupDict_getitem (VarLookupDict_setitem h self key v) self key = Inr v
        \<and> (\<forall>k. k \<noteq> key \<longrightarrow>
              VarLookupDict_getitem (VarLookupDict_setitem h self key v) self k
                = VarLookupDict_getitem h self k)
        \<and> (\<forall>a. a \<noteq> hd (dicts self) \<longrightarrow> VarLookupDict_setitem h self key v ! a = h ! a)
        \<and> (\<forall>a\<in>set ds. VarLookupDict_setitem h self key v ! a = h ! a)
        \<and> VarLookupDict_setitem h self key v ! hd (dicts self) = (h ! hd (dicts self))(key \<mapsto> v)
        \<and> length (VarLookupDict_setitem h self key v) = length h)"
proof (intro conjI allI impI)
  fix h0 :: "(string, 'v) dict_store" and ds self h1 key v
  assume "(\<forall>a\<in>set ds. a < length h0) \<and> VarLookupDict_init h0 ds = (self, h1)"
  then have valid: "\<forall>a\<in>set ds. a < length h0" and init: "VarLookupDict_init h0 ds = (self, h1)"
    by simp_all
  note fresh = VarLookupDict_after_init [OF valid init, of key v]
  show "VarLookupDict_wf h1 self ds" "h1 ! hd (dicts self) = Map.empty"
    "\<forall>a\<in>set ds. h1 ! a = h0 ! a"
    by (rule VarLookupDict_wf_init [OF valid init])+
  from fresh show "VarLookupDict_getitem h1 self key =
           (case find (\<lambda>a. (h0 ! a) key \<noteq> None) ds of
              Some a \<Rightarrow> Inr (the ((h0 ! a) key))
            | None \<Rightarrow> Inl (KeyError key))"
    by (rule conjunct1)
  from fresh show "isl (VarLookupDict_getitem h1 self key) \<longleftrightarrow> (\<forall>a\<in>set ds. (h0 ! a) key = None)"
    by blast
  from fresh show "VarLookupDict_getitem (VarLookupDict_setitem h1 self key v) self key = Inr v"
    by blast
  from fresh show "\<forall>a\<in>set ds. VarLookupDict_setitem h1 self key v ! a = h0 ! a"
    by blast
next
  fix h :: "(string, 'v) dict_store" and self ds key v
  assume wf: "VarLookupDict_wf h self ds"
  show "VarLookupDict_getitem h self key =
            (case find (\<lambda>a. (h ! a) key \<noteq> None) (dicts self) of
               Some a \<Rightarrow> Inr (the ((h ! a) key))
             | None \<Rightarrow> Inl (KeyError key))"
    by (rule VarLookupDict_getitem_any)
  show "isl (VarLookupDict_getitem h self key) \<longleftrightarrow> (\<forall>a\<in>set (dicts self). (h ! a) key = None)"
    by (rule VarLookupDict_getitem_KeyError)
  show "VarLookupDict_wf (VarLookupDict_setitem h self key v) self ds"
    "VarLookupDict_getitem (VarLookupDict_setitem h self key v) self key = Inr v"
    "\<forall>a\<in>set ds. VarLookupDict_setitem h self key v ! a = h ! a"
    "VarLookupDict_setitem h self key v ! hd (dicts self) = (h ! hd (dicts self))(key \<mapsto> v)"
    "length (VarLookupDict_setitem h self key v) = length h"
    by (rule VarLookupDict_setitem_any [OF wf])+
  fix k assume "k \<noteq> key"
  with VarLookupDict_setitem_any(3) [OF wf, of key v]
  show "VarLookupDict_getitem (VarLookupDict_setitem h self key v) self k
                = VarLookupDict_getitem h self k"
    by blast
next
  fix h :: "(string, 'v) dict_store" and self ds key v a
  assume wf: "VarLookupDict_wf h self ds" and "a \<noteq> hd (dicts self)"
  with VarLookupDict_setitem_any(4) [OF wf, of key v]
  show "VarLookupDict_setitem h self key v ! a = h ! a"
    by blast
qed

theorem VarLookupDict_lookup_and_assignment_witness:
  "VarLookupDict_init [test_d1, test_d2] [0, 1]
       = (\<lparr>dicts = [2, 0, 1]\<rparr>, [test_d1, test_d2, Map.empty])
   \<and> VarLookupDict_wf [test_d1, test_d2, Map.empty] \<lparr>dicts = [2, 0, 1]\<rparr> [0, 1]
   \<and> VarLookupDict_getitem [test_d1, test_d2, Map.empty] \<lparr>dicts = [2, 0, 1]\<rparr> ''a'' = Inr 1
   \<and> VarLookupDict_getitem
         (VarLookupDict_setitem
            (VarLookupDict_setitem [test_d1, test_d2, Map.empty] \<lparr>dicts = [2, 0, 1]\<rparr> ''a'' 10)
            \<lparr>dicts = [2, 0, 1]\<rparr> ''c'' 7)
         \<lparr>dicts = [2, 0, 1]\<rparr> ''a'' = Inr 10
   \<and> VarLookupDict_getitem
         (VarLookupDict_setitem
            (VarLookupDict_setitem [test_d1, test_d2, Map.empty] \<lparr>dicts = [2, 0, 1]\<rparr> ''a'' 10)
            \<lparr>dicts = [2, 0, 1]\<rparr> ''a'' 20)
         \<lparr>dicts = [2, 0, 1]\<rparr> ''a'' = Inr 20
   \<and> VarLookupDict_getitem
         (VarLookupDict_setitem [test_d1, test_d2, Map.empty] \<lparr>dicts = [2, 0, 1]\<rparr> ''a'' 10)
         \<lparr>dicts = [2, 0, 1]\<rparr> ''b'' = Inr 3
   \<and> VarLookupDict_setitem
         (VarLookupDict_setitem [test_d1, test_d2, Map.empty] \<lparr>dicts = [2, 0, 1]\<rparr> ''a'' 10)
         \<lparr>dicts = [2, 0, 1]\<rparr> ''c'' 7 ! 0 = test_d1
   \<and> VarLookupDict_setitem
         (VarLookupDict_setitem [test_d1, test_d2, Map.empty] \<lparr>dicts = [2, 0, 1]\<rparr> ''a'' 10)
         \<lparr>dicts = [2, 0, 1]\<rparr> ''c'' 7 ! 1 = test_d2"
proof -
  define self where "self = \<lparr>dicts = [2, 0, 1]\<rparr>"
  define h1 where "h1 = [test_d1, test_d2, Map.empty]"
  define h2 where "h2 = VarLookupDict_setitem h1 self ''a'' 10"
  define h3 where "h3 = VarLookupDict_setitem h2 self ''c'' 7"
  have valid: "\<forall>a\<in>set [0, 1]. a < length [test_d1, test_d2]"
    by simp
  have init: "VarLookupDict_init [test_d1, test_d2] [0, 1] = (self, h1)"
    by (simp add: VarLookupDict_init_def self_def h1_def)
  note after_init = VarLookupDict_lookup_and_assignment [THEN conjunct1, rule_format,
      OF conjI [OF valid init]]
  note any_state = VarLookupDict_lookup_and_assignment [THEN conjunct2, rule_format]
  from after_init have wf1: "VarLookupDict_wf h1 self [0, 1]"
    by blast
  from after_init [of "''a''"] have a1: "VarLookupDict_getitem h1 self ''a'' = Inr 1"
    by (simp add: test_d1_def)
  from after_init [of "''b''"] have b1: "VarLookupDict_getitem h1 self ''b'' = Inr 3"
    by (simp add: test_d1_def test_d2_def)
  note s1 = any_state [OF wf1, of "''a''" 10, folded h2_def]
  from s1 have wf2: "VarLookupDict_wf h2 self [0, 1]"
    by blast
  from s1 have "VarLookupDict_getitem h2 self ''a'' = Inr 10"
    by blast
  moreover from s1 have b2: "VarLookupDict_getitem h2 self ''b'' = VarLookupDict_getitem h1 self ''b''"
    by simp
  moreover from s1 have f2: "\<forall>a\<in>set [0, 1]. h2 ! a = h1 ! a"
    by blast
  moreover note s2 = any_state [OF wf2, of "''c''" 7, folded h3_def]
  from s2 have "VarLookupDict_getitem h3 self ''a'' = VarLookupDict_getitem h2 self ''a''"
    by simp
  moreover from s2 have f3: "\<forall>a\<in>set [0, 1]. h3 ! a = h2 ! a"
    by blast
  moreover from any_state [OF wf2, of "''a''" 20]
  have "VarLookupDict_getitem (VarLookupDict_setitem h2 self ''a'' 20) self ''a'' = Inr 20"
    by blast
  ultimately have
    "VarLookupDict_getitem h3 self ''a'' = Inr 10"
    "VarLookupDict_getitem (VarLookupDict_setitem h2 self ''a'' 20) self ''a'' = Inr 20"
    "VarLookupDict_getitem h2 self ''b'' = Inr 3"
    "h3 ! 0 = test_d1" "h3 ! 1 = test_d2"
    using b1 by (simp_all add: h1_def)
  with init wf1 a1 show ?thesis
    unfolding h3_def h2_def h1_def self_def by blast
qed


section \<open>Properties of the annotator\<close>

lemma annotate_failure: "annotate prev toks err = (out, e) \<Longrightarrow> e = err"
  by (induction toks arbitrary: prev out) (auto simp: Let_def split: if_splits prod.splits)

lemma annotate_length:
  "annotate prev toks err = (out, e) \<Longrightarrow>
     length out \<le> length toks \<and> (err = None \<longrightarrow> length out = length toks)"
  by (induction toks arbitrary: prev out) (fastforce simp: Let_def split: if_splits prod.splits)+

lemma annotate_nth:
  "annotate prev toks err = (out, e) \<Longrightarrow> i < length out \<Longrightarrow>
     out ! i =
       (tok_type (toks ! i), tok_text (toks ! i), tok_origin (toks ! i),
        \<lparr>bare_ref = (tok_type (toks ! i) = NAME
                      \<and> \<not> (if i = 0 then prev else tok_text (toks ! (i - 1)) = ''.'')),
         bare_funcall = ((tok_type (toks ! i) = NAME
                      \<and> \<not> (if i = 0 then prev else tok_text (toks ! (i - 1)) = ''.''))
                      \<and> Suc i < length toks \<and> tok_text (toks ! Suc i) = ''('')\<rparr>)"
proof (induction toks arbitrary: prev out i)
  case Nil
  then show ?case by simp
next
  case (Cons t rest)
  obtain ty tx orig where t: "t = (ty, tx, orig)" by (cases t) auto
  show ?case
  proof (cases i)
    case 0
    with Cons.prems t show ?thesis
      by (cases rest) (auto simp: Let_def tok_type_def tok_text_def tok_origin_def split: if_splits prod.splits)
  next
    case (Suc j)
    from Cons.prems t obtain out' where out: "out = (ty, tx, orig,
        \<lparr>bare_ref = (\<not> prev \<and> ty = NAME), bare_funcall = ((\<not> prev \<and> ty = NAME) \<and> rest \<noteq> [] \<and> tok_text (hd rest) = ''('')\<rparr>) # out'"
      and rec: "annotate (tx = ''.'') rest err = (out', e)"
      by (auto simp: Let_def split: if_splits prod.splits)
    from Cons.prems Suc out have j: "j < length out'" by simp
    from Cons.IH [OF rec j] Suc out t show ?thesis
      by (cases j) (auto simp: tok_text_def)
  qed
qed

text \<open>
  Claim C2.  For the tokens the annotator produces from an expression string:
  \<open>bare_ref\<close> is true exactly when the token is a \<open>NAME\<close> token that is not
  immediately preceded by a \<open>.\<close> token; \<open>bare_funcall\<close> is true exactly when
  \<open>bare_ref\<close> is true and the very next token of the stream is \<open>(\<close>; the annotated
  tokens carry the type, text and origin of the tokens of the stream in order, and a
  stream of a single token gives exactly one annotated token.
\<close>

theorem annotated_tokens_flags:
  assumes "tk c = (toks, err)" and "annotated_tokens tk c = (out, e)"
  shows "e = err \<and> length out \<le> length toks
     \<and> (err = None \<longrightarrow> length out = length toks)
     \<and> (\<forall>i<length out.
           atok_type (out ! i) = tok_type (toks ! i)
         \<and> atok_text (out ! i) = tok_text (toks ! i)
         \<and> atok_origin (out ! i) = tok_origin (toks ! i)
         \<and> (bare_ref (atok_props (out ! i)) \<longleftrightarrow>
              tok_type (toks ! i) = NAME \<and> \<not> (0 < i \<and> tok_text (toks ! (i - 1)) = ''.''))
         \<and> (bare_funcall (atok_props (out ! i)) \<longleftrightarrow>
              bare_ref (atok_props (out ! i))
              \<and> Suc i < length toks \<and> tok_text (toks ! Suc i) = ''(''))
     \<and> (length toks = 1 \<and> err = None \<longrightarrow> length out = 1)"
proof -
  from assms have ann: "annotate False toks err = (out, e)"
    by (simp add: annotated_tokens_def)
  have "\<forall>i<length out.
           atok_type (out ! i) = tok_type (toks ! i)
         \<and> atok_text (out ! i) = tok_text (toks ! i)
         \<and> atok_origin (out ! i) = tok_origin (toks ! i)
         \<and> (bare_ref (atok_props (out ! i)) \<longleftrightarrow>
              tok_type (toks ! i) = NAME \<and> \<not> (0 < i \<and> tok_text (toks ! (i - 1)) = ''.''))
         \<and> (bare_funcall (atok_props (out ! i)) \<longleftrightarrow>
              bare_ref (atok_props (out ! i))
              \<and> Suc i < length toks \<and> tok_text (toks ! Suc i) = ''('')"
  proof (intro allI impI)
    fix i assume "i < length out"
    from annotate_nth [OF ann this] show "atok_type (out ! i) = tok_type (toks ! i)
         \<and> atok_text (out ! i) = tok_text (toks ! i)
         \<and> atok_origin (out ! i) = tok_origin (toks ! i)
         \<and> (bare_ref (atok_props (out ! i)) \<longleftrightarrow>
              tok_type (toks ! i) = NAME \<and> \<not> (0 < i \<and> tok_text (toks ! (i - 1)) = ''.''))
         \<and> (bare_funcall (atok_props (out ! i)) \<longleftrightarrow>
              bare_ref (atok_props (out ! i))
              \<and> Suc i < length toks \<and> tok_text (toks ! Suc i) = ''('')"
      by (simp add: atok_type_def atok_text_def atok_origin_def atok_props_def)
  qed
  with annotate_failure [OF ann] annotate_length [OF ann] show ?thesis
    by simp
qed

theorem annotated_tokens_flags_witness:
  "annotated_tokens python_tokenize ''a(b) + c.d'' =
     ([(NAME, ''a'', (''a(b) + c.d'', 0, 1), \<lparr>bare_ref = True, bare_funcall = True\<rparr>),
       (OP, ''('', (''a(b) + c.d'', 1, 2), \<lparr>bare_ref = False, bare_funcall = False\<rparr>),
       (NAME, ''b'', (''a(b) + c.d'', 2, 3), \<lparr>bare_ref = True, bare_funcall = False\<rparr>),
       (OP, '')'', (''a(b) + c.d'', 3, 4), \<lparr>bare_ref = False, bare_funcall = False\<rparr>),
       (OP, ''+'', (''a(b) + c.d'', 5, 6), \<lparr>bare_ref = False, bare_funcall = False\<rparr>),
       (NAME, ''c'', (''a(b) + c.d'', 7, 8), \<lparr>bare_ref = True, bare_funcall = False\<rparr>),
       (OP, ''.'', (''a(b) + c.d'', 8, 9), \<lparr>bare_ref = False, bare_funcall = False\<rparr>),
       (NAME, ''d'', (''a(b) + c.d'', 9, 10), \<lparr>bare_ref = False, bare_funcall = False\<rparr>)], None)
   \<and> length (fst (annotated_tokens python_tokenize ''a(b) + c.d'')) = 8
   \<and> python_tokenize ''x'' = ([(NAME, ''x'', (''x'', 0, 1))], None)
   \<and> length (fst (annotated_tokens python_tokenize ''x'')) = 1"
proof -
  have t1: "python_tokenize ''a(b) + c.d'' =
     ([(NAME, ''a'', (''a(b) + c.d'', 0, 1)), (OP, ''('', (''a(b) + c.d'', 1, 2)),
       (NAME, ''b'', (''a(b) + c.d'', 2, 3)), (OP, '')'', (''a(b) + c.d'', 3, 4)),
       (OP, ''+'', (''a(b) + c.d'', 5, 6)), (NAME, ''c'', (''a(b) + c.d'', 7, 8)),
       (OP, ''.'', (''a(b) + c.d'', 8, 9)), (NAME, ''d'', (''a(b) + c.d'', 9, 10))], None)"
    by code_simp
  have a1: "annotated_tokens python_tokenize ''a(b) + c.d'' =
     ([(NAME, ''a'', (''a(b) + c.d'', 0, 1), \<lparr>bare_ref = True, bare_funcall = True\<rparr>),
       (OP, ''('', (''a(b) + c.d'', 1, 2), \<lparr>bare_ref = False, bare_funcall = False\<rparr>),
       (NAME, ''b'', (''a(b) + c.d'', 2, 3), \<lparr>bare_ref = True, bare_funcall = False\<rparr>),
       (OP, '')'', (''a(b) + c.d'', 3, 4), \<lparr>bare_ref = False, bare_funcall = False\<rparr>),
       (OP, ''+'', (''a(b) + c.d'', 5, 6), \<lparr>bare_ref = False, bare_funcall = False\<rparr>),
       (NAME, ''c'', (''a(b) + c.d'', 7, 8), \<lparr>bare_ref = True, bare_funcall = False\<rparr>),
       (OP, ''.'', (''a(b) + c.d'', 8, 9), \<lparr>bare_ref = False, bare_funcall = False\<rparr>),
       (NAME, ''d'', (''a(b) + c.d'', 9, 10), \<lparr>bare_ref = False, bare_funcall = False\<rparr>)], None)"
    by code_simp
  have t2: "python_tokenize ''x'' = ([(NAME, ''x'', (''x'', 0, 1))], None)"
    by code_simp
  obtain out e where a2: "annotated_tokens python_tokenize ''x'' = (out, e)"
    by (cases "annotated_tokens python_tokenize ''x''")
  show ?thesis
    using a1 t2 a2 annotated_tokens_flags [OF t1 a1] annotated_tokens_flags [OF t2 a2]
    by simp
qed

section \<open>Properties of the rewriter\<close>

lemma replace_loop_pure:
  "replace_loop (pure_replacer r) () atoks =
     (map (\<lambda>t. (atok_type t,
                 if bare_ref (atok_props t) \<and> bare_funcall (atok_props t)
                 then r (atok_text t) else atok_text t)) atoks, ())"
  by (induction atoks)
     (auto simp: pure_replacer_def atok_type_def atok_text_def atok_props_def)

lemma replace_bare_funcalls_pure:
  assumes "annotated_tokens tk c = (atoks, err)"
  shows "replace_bare_funcalls tk untok c (pure_replacer r) () =
     (raise_failure err
        (untok (map (\<lambda>t. (atok_type t,
                 if bare_ref (atok_props t) \<and> bare_funcall (atok_props t)
                 then r (atok_text t) else atok_text t)) atoks)), ())"
  using assms by (simp add: replace_bare_funcalls_def replace_loop_pure)

lemma replace_example:
  "replace_bare_funcalls python_tokenize pretty_untokenize ''b() + a() * x[foo(2 ** 3)]''
     (pure_replacer replacer1) () = (Inr ''b() + b() * x[_internal.foo.process(2 ** 3)]'', ())"
  by code_simp

text \<open>
  Claim C4.  For every code string and every pure replacer, \<open>replace_bare_funcalls\<close>
  hands to the normalizer the tokens of the stream with their types, in order, where
  the text of a token is replaced by \<open>replacer(text)\<close> exactly when the token is a
  \<open>NAME\<close> that is not preceded by \<open>.\<close> and whose next token is \<open>(\<close>, and is unchanged
  otherwise (so a name used as a value, an attribute name after a dot, and a keyword
  argument name, which is followed by \<open>=\<close>, are never replaced).  With the replacer
  that maps \<open>a\<close> to \<open>b\<close> and \<open>foo\<close> to \<open>_internal.foo.process\<close>, the code
  \<open>b() + a() * x[foo(2 ** 3)]\<close> becomes \<open>b() + b() * x[_internal.foo.process(2 ** 3)]\<close>.
\<close>

theorem replace_bare_funcalls_call_positions:
  "(\<forall>tk untok c r toks err.
      tk c = (toks, err) \<longrightarrow>
      (\<exists>out.
         replace_bare_funcalls tk untok c (pure_replacer r) () = (raise_failure err (untok out), ())
       \<and> length out \<le> length toks
       \<and> (err = None \<longrightarrow> length out = length toks)
       \<and> (\<forall>i<length out.
             out ! i =
               (tok_type (toks ! i),
                if tok_type (toks ! i) = NAME
                   \<and> \<not> (0 < i \<and> tok_text (toks ! (i - 1)) = ''.'')
                   \<and> Suc i < length toks \<and> tok_text (toks ! Suc i) = ''(''
                then r (tok_text (toks ! i)) else tok_text (toks ! i)))))
   \<and> replace_bare_funcalls python_tokenize pretty_untokenize ''b() + a() * x[foo(2 ** 3)]''
        (pure_replacer replacer1) ()
      = (Inr ''b() + b() * x[_internal.foo.process(2 ** 3)]'', ())"
proof -
  have general: "\<exists>out.
         replace_bare_funcalls tk untok c (pure_replacer r) () = (raise_failure err (untok out), ())
       \<and> length out \<le> length toks
       \<and> (err = None \<longrightarrow> length out = length toks)
       \<and> (\<forall>i<length out.
             out ! i =
               (tok_type (toks ! i),
                if tok_type (toks ! i) = NAME
                   \<and> \<not> (0 < i \<and> tok_text (toks ! (i - 1)) = ''.'')
                   \<and> Suc i < length toks \<and> tok_text (toks ! Suc i) = ''(''
                then r (tok_text (toks ! i)) else tok_text (toks ! i)))"
    if tk: "tk c = (toks, err)" for tk :: tokenizer and untok :: untokenizer and c r toks err
  proof -
    obtain atoks e where at: "annotated_tokens tk c = (atoks, e)"
      by (cases "annotated_tokens tk c")
    from tk at have ann: "annotate False toks err = (atoks, e)"
      by (simp add: annotated_tokens_def)
    let ?out = "map (\<lambda>t. (atok_type t,
                 if bare_ref (atok_props t) \<and> bare_funcall (atok_props t)
                 then r (atok_text t) else atok_text t)) atoks"
    have "replace_bare_funcalls tk untok c (pure_replacer r) () = (raise_failure err (untok ?out), ())"
      using replace_bare_funcalls_pure [OF at] annotate_failure [OF ann] by simp
    moreover have "length ?out \<le> length toks" "err = None \<longrightarrow> length ?out = length toks"
      using annotate_length [OF ann] by simp_all
    moreover have "\<forall>i<length ?out. ?out ! i =
               (tok_type (toks ! i),
                if tok_type (toks ! i) = NAME
                   \<and> \<not> (0 < i \<and> tok_text (toks ! (i - 1)) = ''.'')
                   \<and> Suc i < length toks \<and> tok_text (toks ! Suc i) = ''(''
                then r (tok_text (toks ! i)) else tok_text (toks ! i))"
    proof (intro allI impI)
      fix i assume "i < length ?out"
      then have i: "i < length atoks" by simp
      from annotate_nth [OF ann i] i show "?out ! i =
               (tok_type (toks ! i),
                if tok_type (toks ! i) = NAME
                   \<and> \<not> (0 < i \<and> tok_text (toks ! (i - 1)) = ''.'')
                   \<and> Suc i < length toks \<and> tok_text (toks ! Suc i) = ''(''
                then r (tok_text (toks ! i)) else tok_text (toks ! i))"
        by (simp add: atok_type_def atok_text_def atok_props_def)
    qed
    ultimately show ?thesis by blast
  qed
  from general replace_example show ?thesis by blast
qed

theorem replace_bare_funcalls_call_positions_witness:
  "python_tokenize ''foo(a=foo, b=x.foo(a))'' =
     ([(NAME, ''foo'', (''foo(a=foo, b=x.foo(a))'', 0, 3)),
       (OP, ''('', (''foo(a=foo, b=x.foo(a))'', 3, 4)),
       (NAME, ''a'', (''foo(a=foo, b=x.foo(a))'', 4, 5)),
       (OP, ''='', (''foo(a=foo, b=x.foo(a))'', 5, 6)),
       (NAME, ''foo'', (''foo(a=foo, b=x.foo(a))'', 6, 9)),
       (OP, '','', (''foo(a=foo, b=x.foo(a))'', 9, 10)),
       (NAME, ''b'', (''foo(a=foo, b=x.foo(a))'', 11, 12)),
       (OP, ''='', (''foo(a=foo, b=x.foo(a))'', 12, 13)),
       (NAME, ''x'', (''foo(a=foo, b=x.foo(a))'', 13, 14)),
       (OP, ''.'', (''foo(a=foo, b=x.foo(a))'', 14, 15)),
       (NAME, ''foo'', (''foo(a=foo, b=x.foo(a))'', 15, 18)),
       (OP, ''('', (''foo(a=foo, b=x.foo(a))'', 18, 19)),
       (NAME, ''a'', (''foo(a=foo, b=x.foo(a))'', 19, 20)),
       (OP, '')'', (''foo(a=foo, b=x.foo(a))'', 20, 21)),
       (OP, '')'', (''foo(a=foo, b=x.foo(a))'', 21, 22))], None)
   \<and> (\<exists>out. replace_bare_funcalls python_tokenize pretty_untokenize ''foo(a=foo, b=x.foo(a))''
               (pure_replacer replacer1) () = (Inr (pretty_untokenize out), ())
            \<and> length out = 15
            \<and> out ! 0 = (NAME, ''_internal.foo.process'')
            \<and> out ! 2 = (NAME, ''a'')
            \<and> out ! 4 = (NAME, ''foo'')
            \<and> out ! 10 = (NAME, ''foo'')
            \<and> out ! 12 = (NAME, ''a''))
   \<and> replace_bare_funcalls python_tokenize pretty_untokenize ''foo(a=foo, b=x.foo(a))''
               (pure_replacer replacer1) () = (Inr ''_internal.foo.process(a=foo, b=x.foo(a))'', ())"
proof -
  define toks :: "token list" where "toks =
      [(NAME, ''foo'', (''foo(a=foo, b=x.foo(a))'', 0, 3)),
       (OP, ''('', (''foo(a=foo, b=x.foo(a))'', 3, 4)),
       (NAME, ''a'', (''foo(a=foo, b=x.foo(a))'', 4, 5)),
       (OP, ''='', (''foo(a=foo, b=x.foo(a))'', 5, 6)),
       (NAME, ''foo'', (''foo(a=foo, b=x.foo(a))'', 6, 9)),
       (OP, '','', (''foo(a=foo, b=x.foo(a))'', 9, 10)),
       (NAME, ''b'', (''foo(a=foo, b=x.foo(a))'', 11, 12)),
       (OP, ''='', (''foo(a=foo, b=x.foo(a))'', 12, 13)),
       (NAME, ''x'', (''foo(a=foo, b=x.foo(a))'', 13, 14)),
       (OP, ''.'', (''foo(a=foo, b=x.foo(a))'', 14, 15)),
       (NAME, ''foo'', (''foo(a=foo, b=x.foo(a))'', 15, 18)),
       (OP, ''('', (''foo(a=foo, b=x.foo(a))'', 18, 19)),
       (NAME, ''a'', (''foo(a=foo, b=x.foo(a))'', 19, 20)),
       (OP, '')'', (''foo(a=foo, b=x.foo(a))'', 20, 21)),
       (OP, '')'', (''foo(a=foo, b=x.foo(a))'', 21, 22))]"
  have t: "python_tokenize ''foo(a=foo, b=x.foo(a))'' = (toks, None)"
    unfolding toks_def by code_simp
  have r: "replace_bare_funcalls python_tokenize pretty_untokenize ''foo(a=foo, b=x.foo(a))''
               (pure_replacer replacer1) () = (Inr ''_internal.foo.process(a=foo, b=x.foo(a))'', ())"
    by code_simp
  have r1: "replacer1 ''foo'' = ''_internal.foo.process''"
    by (simp add: replacer1_def)
  from replace_bare_funcalls_call_positions [THEN conjunct1, rule_format,
      where tk = python_tokenize and c = "''foo(a=foo, b=x.foo(a))''" and untok = pretty_untokenize
        and r = replacer1, OF t]
  obtain out where
      o1: "replace_bare_funcalls python_tokenize pretty_untokenize ''foo(a=foo, b=x.foo(a))''
            (pure_replacer replacer1) () = (raise_failure None (pretty_untokenize out), ())"
    and o2: "length out = length toks"
    and o3: "\<forall>i<length out.
             out ! i =
               (tok_type (toks ! i),
                if tok_type (toks ! i) = NAME
                   \<and> \<not> (0 < i \<and> tok_text (toks ! (i - 1)) = ''.'')
                   \<and> Suc i < length toks \<and> tok_text (toks ! Suc i) = ''(''
                then replacer1 (tok_text (toks ! i)) else tok_text (toks ! i))"
    by blast
  have len: "length out = 15"
    using o2 by (simp add: toks_def)
  have o1': "replace_bare_funcalls python_tokenize pretty_untokenize ''foo(a=foo, b=x.foo(a))''
            (pure_replacer replacer1) () = (Inr (pretty_untokenize out), ())"
    using o1 by (simp add: raise_failure_def)
  have "out ! 0 = (NAME, ''_internal.foo.process'')" "out ! 2 = (NAME, ''a'')"
       "out ! 4 = (NAME, ''foo'')" "out ! 10 = (NAME, ''foo'')" "out ! 12 = (NAME, ''a'')"
    using o3 [rule_format, of 0] o3 [rule_format, of 2] o3 [rule_format, of 4]
          o3 [rule_format, of 10] o3 [rule_format, of 12] len
    by (simp_all add: toks_def tok_type_def tok_text_def r1)
  with o1' len t [unfolded toks_def] r show ?thesis by blast
qed

section \<open>Properties of the call capturer\<close>

lemma feed_done: "done_c c \<Longrightarrow> feed c ts = Inr c"
  by (induction ts) (auto simp: add_token_def)

lemma feed_append:
  "feed c (xs @ ys) = (case feed c xs of Inl e \<Rightarrow> Inl e | Inr c' \<Rightarrow> feed c' ys)"
  by (induction xs arbitrary: c) (auto split: sum.splits)

lemma feed_path:
  assumes "\<not> started c" "\<not> done_c c" "paren_depth c = 0"
    and "list_all (\<lambda>t. (fst t = NAME \<or> snd t = ''.'') \<and> depth_change (snd t) = 0 \<and> snd t \<noteq> ''('') path"
  shows "feed c path = Inr (c\<lparr>func := func c @ map snd path, tokens := tokens c @ path\<rparr>)"
  using assms
proof (induction path arbitrary: c)
  case Nil
  then show ?case by simp
next
  case (Cons t path)
  let ?c' = "c\<lparr>func := func c @ [snd t], tokens := tokens c @ [t]\<rparr>"
  from Cons.prems have step: "add_token c (fst t) (snd t) = Inr ?c'"
    by (cases t) (auto simp: add_token_def finish_add_def depth_change_def Let_def split: if_splits)
  from Cons.prems have "feed ?c' path = Inr (?c'\<lparr>func := func ?c' @ map snd path, tokens := tokens ?c' @ path\<rparr>)"
    by (intro Cons.IH) auto
  with step show ?case by simp
qed

lemma add_token_open:
  assumes "\<not> started c" "\<not> done_c c" "paren_depth c = 0"
  shows "add_token c ty ''('' = Inr (c\<lparr>tokens := tokens c @ [(ty, ''('')], paren_depth := 1, started := True\<rparr>)"
  using assms by (simp add: add_token_def finish_add_def Let_def)

lemma feed_balanced:
  assumes "started c" "\<not> done_c c" "paren_depth c = d" "0 < d"
    and "balanced_extent d ts = Some args"
  shows "feed c ts = Inr (c\<lparr>tokens := tokens c @ args, paren_depth := 0, done_c := True\<rparr>)"
  using assms
proof (induction ts arbitrary: c d args)
  case Nil
  then show ?case by simp
next
  case (Cons t ts)
  let ?d' = "d + depth_change (snd t)"
  have dc: "depth_change (snd t) \<in> {-1, 0, 1}"
    by (auto simp: depth_change_def)
  show ?case
  proof (cases "?d' = 0")
    case True
    with Cons.prems have args: "args = [t]" by simp
    let ?c' = "c\<lparr>tokens := tokens c @ [t], paren_depth := 0, done_c := True\<rparr>"
    from Cons.prems True have "add_token c (fst t) (snd t) = Inr ?c'"
      by (cases t) (auto simp: add_token_def finish_add_def depth_change_def Let_def split: if_splits)
    then show ?thesis
      by (simp add: args feed_done)
  next
    case False
    with Cons.prems obtain args' where rec: "balanced_extent ?d' ts = Some args'"
      and args: "args = t # args'"
      by auto
    from False dc Cons.prems have pos: "0 < ?d'" by auto
    let ?c' = "c\<lparr>tokens := tokens c @ [t], paren_depth := ?d'\<rparr>"
    from Cons.prems False pos have step: "add_token c (fst t) (snd t) = Inr ?c'"
      by (cases t) (auto simp: add_token_def finish_add_def depth_change_def Let_def split: if_splits)
    have "feed ?c' ts = Inr (?c'\<lparr>tokens := tokens ?c' @ args', paren_depth := 0, done_c := True\<rparr>)"
      using Cons.prems pos rec by (intro Cons.IH [where d = ?d']) auto
    with step show ?thesis
      by (simp add: args)
  qed
qed

lemma balanced_extent_prefix:
  "balanced_extent d ts = Some args \<Longrightarrow> \<exists>rest. ts = args @ rest"
  by (induction ts arbitrary: d args) (auto split: if_splits)

lemma feed_dotted_call:
  assumes "dotted_call_spec (ty, tx) following = Some (name, call)"
  shows "\<exists>c. feed (FuncallCapturer_init ty tx) following = Inr c
            \<and> concat (func c) = name \<and> tokens c = call"
proof -
  let ?path = "takeWhile (\<lambda>t. snd t \<noteq> ''('') following"
  let ?call = "dropWhile (\<lambda>t. snd t \<noteq> ''('') following"
  from assms obtain args where
        path: "list_all (\<lambda>t. (fst t = NAME \<or> snd t = ''.'') \<and> depth_change (snd t) = 0) ?path"
    and call: "?call \<noteq> []"
    and args: "balanced_extent 1 (tl ?call) = Some args"
    and name: "name = concat (tx # map snd ?path)"
    and res: "call = (ty, tx) # ?path @ [hd ?call] @ args"
    by (auto simp: dotted_call_spec_def Let_def split: if_splits option.splits)
  from call obtain oty rest where c: "?call = (oty, ''('') # rest"
    using hd_dropWhile [of "\<lambda>t. snd t \<noteq> ''(''" following]
    by (cases ?call) auto
  from args c obtain rem where rest: "rest = args @ rem"
    using balanced_extent_prefix by fastforce
  have foll: "following = ?path @ [(oty, ''('')] @ rest"
    using takeWhile_dropWhile_id [of "\<lambda>t. snd t \<noteq> ''(''" following] c by simp
  have path': "list_all (\<lambda>t. (fst t = NAME \<or> snd t = ''.'') \<and> depth_change (snd t) = 0 \<and> snd t \<noteq> ''('') ?path"
    using path by (auto simp: list_all_iff dest: set_takeWhileD)
  define c0 where "c0 = FuncallCapturer_init ty tx"
  define c1 where "c1 = \<lparr>func = tx # map snd ?path, tokens = (ty, tx) # ?path,
      paren_depth = 0, started = False, done_c = False\<rparr>"
  define c2 where "c2 = \<lparr>func = tx # map snd ?path, tokens = (ty, tx) # ?path @ [(oty, ''('')],
      paren_depth = 1, started = True, done_c = False\<rparr>"
  define c3 where "c3 = \<lparr>func = tx # map snd ?path, tokens = (ty, tx) # ?path @ [(oty, ''('')] @ args,
      paren_depth = 0, started = True, done_c = True\<rparr>"
  have f1: "feed c0 ?path = Inr c1"
    using feed_path [of c0 ?path] path'
    by (simp add: c0_def c1_def FuncallCapturer_init_def)
  have f2: "add_token c1 oty ''('' = Inr c2"
    using add_token_open [of c1 oty] by (simp add: c1_def c2_def)
  have f3: "feed c2 rest = Inr c3"
    using feed_balanced [of c2 1 rest args] args c by (simp add: c2_def c3_def)
  have "feed c0 (?path @ [(oty, ''('')] @ rest) = Inr c3"
    by (simp only: feed_append f1 sum.case feed.simps fst_conv snd_conv f2 f3)
  with foll have "feed c0 following = Inr c3" by simp
  moreover have "concat (func c3) = name" "tokens c3 = call"
    using name res c by (simp_all add: c3_def)
  ultimately show ?thesis unfolding c0_def by blast
qed

lemma add_token_all_ok:
  "list_all (\<lambda>c. \<not> isl (add_token c ty tx)) cs \<Longrightarrow>
     add_token_all cs ty tx = Inr (map (\<lambda>c. projr (add_token c ty tx)) cs)"
  by (induction cs) (auto split: sum.splits)

lemma feed_Cons_ok:
  "\<not> isl (feed c (t # ts)) \<Longrightarrow>
     \<not> isl (add_token c (fst t) (snd t))
     \<and> feed c (t # ts) = feed (projr (add_token c (fst t) (snd t))) ts"
  by (auto split: sum.splits)

lemma capture_loop_spec:
  assumes "refs_are_calls obj_name atoks"
    and "list_all (\<lambda>c. \<not> isl (feed c (map strip_props atoks))) cs"
  shows "\<exists>news. capture_loop obj_name cs atoks
                 = Inr (map (\<lambda>c. projr (feed c (map strip_props atoks))) cs @ news)
          \<and> map (\<lambda>c. (concat (func c), untok (tokens c))) news = capture_spec untok obj_name atoks"
  using assms
proof (induction atoks arbitrary: cs)
  case Nil
  then show ?case by simp
next
  case (Cons t rest)
  obtain ty tx orig props where t: "t = (ty, tx, orig, props)"
    by (cases t) auto
  have st: "strip_props t = (ty, tx)"
    by (simp add: t strip_props_def)
  let ?adv = "map (\<lambda>c. projr (add_token c ty tx)) cs"
  from Cons.prems(2) have ok: "list_all (\<lambda>c. \<not> isl (add_token c ty tx)) cs"
    and adv: "\<forall>c\<in>set cs. feed c (map strip_props (t # rest))
                 = feed (projr (add_token c ty tx)) (map strip_props rest)"
    using feed_Cons_ok [of _ "(ty, tx)" "map strip_props rest"]
    by (auto simp: list_all_iff st)
  have all: "add_token_all cs ty tx = Inr ?adv"
    by (rule add_token_all_ok [OF ok])
  from Cons.prems(2) adv have adv_ok: "list_all (\<lambda>c. \<not> isl (feed c (map strip_props rest))) ?adv"
    by (auto simp: list_all_iff)
  from Cons.prems(1) have wf: "refs_are_calls obj_name rest"
    by simp
  have old: "map (\<lambda>c. projr (feed c (map strip_props rest))) ?adv
           = map (\<lambda>c. projr (feed c (map strip_props (t # rest)))) cs"
    unfolding map_map comp_def
  proof (rule map_cong [OF refl])
    fix c assume "c \<in> set cs"
    with adv show "projr (feed (projr (add_token c ty tx)) (map strip_props rest))
        = projr (feed c (map strip_props (t # rest)))"
      by (simp only:)
  qed
  have step: "capture_loop obj_name cs (t # rest)
      = capture_loop obj_name
          (if bare_ref props \<and> tx = obj_name then ?adv @ [FuncallCapturer_init ty tx] else ?adv)
          rest"
    by (simp add: t all)
  show ?case
  proof (cases "bare_ref props \<and> tx = obj_name")
    case False
    from Cons.IH [OF wf adv_ok] obtain news where
      loop: "capture_loop obj_name ?adv rest
         = Inr (map (\<lambda>c. projr (feed c (map strip_props rest))) ?adv @ news)"
      and news: "map (\<lambda>c. (concat (func c), untok (tokens c))) news = capture_spec untok obj_name rest"
      by blast
    from False have "capture_loop obj_name cs (t # rest) = capture_loop obj_name ?adv rest"
      by (auto simp add: step)
    with loop old have "capture_loop obj_name cs (t # rest)
         = Inr (map (\<lambda>c. projr (feed c (map strip_props (t # rest)))) cs @ news)"
      by (simp only:)
    moreover from False have "capture_spec untok obj_name (t # rest) = capture_spec untok obj_name rest"
      by (auto simp add: t atok_props_def atok_text_def)
    ultimately have "capture_loop obj_name cs (t # rest)
         = Inr (map (\<lambda>c. projr (feed c (map strip_props (t # rest)))) cs @ news)
       \<and> map (\<lambda>c. (concat (func c), untok (tokens c))) news = capture_spec untok obj_name (t # rest)"
      using news by (simp only:)
    then show ?thesis by (rule exI)
  next
    case True
    with Cons.prems(1) obtain name call where
      spec: "dotted_call_spec (ty, tx) (map strip_props rest) = Some (name, call)"
      by (auto simp: t atok_props_def atok_text_def strip_props_def)
    from feed_dotted_call [OF spec] obtain c where
      c: "feed (FuncallCapturer_init ty tx) (map strip_props rest) = Inr c"
      "concat (func c) = name" "tokens c = call"
      by blast
    let ?cs' = "?adv @ [FuncallCapturer_init ty tx]"
    from adv_ok c(1) have ok': "list_all (\<lambda>c. \<not> isl (feed c (map strip_props rest))) ?cs'"
      by simp
    from Cons.IH [OF wf ok'] obtain news where
      loop: "capture_loop obj_name ?cs' rest
         = Inr (map (\<lambda>c. projr (feed c (map strip_props rest))) ?cs' @ news)"
      and news: "map (\<lambda>c. (concat (func c), untok (tokens c))) news = capture_spec untok obj_name rest"
      by blast
    from True have "capture_loop obj_name cs (t # rest) = capture_loop obj_name ?cs' rest"
      by (simp add: step)
    also note loop
    also have "map (\<lambda>c. projr (feed c (map strip_props rest))) ?cs' @ news
       = map (\<lambda>c. projr (feed c (map strip_props (t # rest)))) cs @ (c # news)"
      using old c(1) by (simp only: map_append list.map sum.sel append_assoc append.simps)
    finally have "capture_loop obj_name cs (t # rest)
            = Inr (map (\<lambda>c. projr (feed c (map strip_props (t # rest)))) cs @ (c # news))" .
    moreover have "map (\<lambda>c. (concat (func c), untok (tokens c))) (c # news)
            = capture_spec untok obj_name (t # rest)"
      using True news c(2,3) spec
      by (simp add: t atok_props_def atok_text_def strip_props_def)
    ultimately show ?thesis by blast
  qed
qed

lemma capture_obj_method_calls_spec:
  assumes "annotated_tokens tk c = (atoks, None)" and "refs_are_calls obj_name atoks"
  shows "capture_obj_method_calls tk untok obj_name c = Inr (capture_spec untok obj_name atoks)"
proof -
  from capture_loop_spec [OF assms(2), of "[]" untok]
  obtain news where "capture_loop obj_name [] atoks = Inr news"
    "map (\<lambda>c. (concat (func c), untok (tokens c))) news = capture_spec untok obj_name atoks"
    by auto
  with assms(1) show ?thesis
    by (simp add: capture_obj_method_calls_def raise_failure_def)
qed

lemma capture_example:
  "capture_obj_method_calls python_tokenize pretty_untokenize ''foo'' ''a + foo.baz(bar) + b.c(d)''
     = Inr [(''foo.baz'', ''foo.baz(bar)'')]"
  by code_simp

lemma capture_spec_length:
  "refs_are_calls obj_name atoks \<Longrightarrow>
     length (capture_spec untok obj_name atoks)
       = length (filter (\<lambda>t. bare_ref (atok_props t) \<and> atok_text t = obj_name) atoks)"
  by (induction atoks) (auto split: option.splits)

text \<open>
  Claim C3.  When every bare reference to the instance name in the code is followed by
  a dotted call (names and dots up to an opening parenthesis whose brackets close),
  the call capturer returns one pair for each such reference, in the order of the
  references: the dotted call name, and the text (through the normalizer) of the
  tokens from the reference up to the token at which the nesting depth, counted over
  \<open>( ) { } [ ]\<close>, is back to zero.  A reference inside the arguments of another call
  is captured in the same way, independently.  In particular the capture of \<open>foo\<close> in
  \<open>a + foo.baz(bar) + b.c(d)\<close> is \<open>[("foo.baz", "foo.baz(bar)")]\<close>.
\<close>

theorem capture_obj_method_calls_balanced_calls:
  "(\<forall>tk untok obj_name c atoks.
      annotated_tokens tk c = (atoks, None) \<and> refs_are_calls obj_name atoks \<longrightarrow>
        capture_obj_method_calls tk untok obj_name c = Inr (capture_spec untok obj_name atoks)
      \<and> length (capture_spec untok obj_name atoks)
          = length (filter (\<lambda>t. bare_ref (atok_props t) \<and> atok_text t = obj_name) atoks))
   \<and> capture_obj_method_calls python_tokenize pretty_untokenize ''foo'' ''a + foo.baz(bar) + b.c(d)''
       = Inr [(''foo.baz'', ''foo.baz(bar)'')]"
  using capture_obj_method_calls_spec capture_spec_length capture_example by blast

theorem capture_obj_method_calls_balanced_calls_witness:
  "annotated_tokens python_tokenize ''foo.bar(foo.baz(quux[0]))'' =
     ([(NAME, ''foo'', (''foo.bar(foo.baz(quux[0]))'', 0, 3), \<lparr>bare_ref = True, bare_funcall = False\<rparr>),
       (OP, ''.'', (''foo.bar(foo.baz(quux[0]))'', 3, 4), \<lparr>bare_ref = False, bare_funcall = False\<rparr>),
       (NAME, ''bar'', (''foo.bar(foo.baz(quux[0]))'', 4, 7), \<lparr>bare_ref = False, bare_funcall = False\<rparr>),
       (OP, ''('', (''foo.bar(foo.baz(quux[0]))'', 7, 8), \<lparr>bare_ref = False, bare_funcall = False\<rparr>),
       (NAME, ''foo'', (''foo.bar(foo.baz(quux[0]))'', 8, 11), \<lparr>bare_ref = True, bare_funcall = False\<rparr>),
       (OP, ''.'', (''foo.bar(foo.baz(quux[0]))'', 11, 12), \<lparr>bare_ref = False, bare_funcall = False\<rparr>),
       (NAME, ''baz'', (''foo.bar(foo.baz(quux[0]))'', 12, 15), \<lparr>bare_ref = False, bare_funcall = False\<rparr>),
       (OP, ''('', (''foo.bar(foo.baz(quux[0]))'', 15, 16), \<lparr>bare_ref = False, bare_funcall = False\<rparr>),
       (NAME, ''quux'', (''foo.bar(foo.baz(quux[0]))'', 16, 20), \<lparr>bare_ref = True, bare_funcall = False\<rparr>),
       (OP, ''['', (''foo.bar(foo.baz(quux[0]))'', 20, 21), \<lparr>bare_ref = False, bare_funcall = False\<rparr>),
       (NUMBER, ''0'', (''foo.bar(foo.baz(quux[0]))'', 21, 22), \<lparr>bare_ref = False, bare_funcall = False\<rparr>),
       (OP, '']'', (''foo.bar(foo.baz(quux[0]))'', 22, 23), \<lparr>bare_ref = False, bare_funcall = False\<rparr>),
       (OP, '')'', (''foo.bar(foo.baz(quux[0]))'', 23, 24), \<lparr>bare_ref = False, bare_funcall = False\<rparr>),
       (OP, '')'', (''foo.bar(foo.baz(quux[0]))'', 24, 25), \<lparr>bare_ref = False, bare_funcall = False\<rparr>)],
      None)
   \<and> capture_obj_method_calls python_tokenize pretty_untokenize ''foo'' ''foo.bar(foo.baz(quux[0]))''
       = Inr [(''foo.bar'', ''foo.bar(foo.baz(quux[0]))''), (''foo.baz'', ''foo.baz(quux[0])'')]"
proof -
  define atoks :: "annotated_token list" where "atoks =
      [(NAME, ''foo'', (''foo.bar(foo.baz(quux[0]))'', 0, 3), \<lparr>bare_ref = True, bare_funcall = False\<rparr>),
       (OP, ''.'', (''foo.bar(foo.baz(quux[0]))'', 3, 4), \<lparr>bare_ref = False, bare_funcall = False\<rparr>),
       (NAME, ''bar'', (''foo.bar(foo.baz(quux[0]))'', 4, 7), \<lparr>bare_ref = False, bare_funcall = False\<rparr>),
       (OP, ''('', (''foo.bar(foo.baz(quux[0]))'', 7, 8), \<lparr>bare_ref = False, bare_funcall = False\<rparr>),
       (NAME, ''foo'', (''foo.bar(foo.baz(quux[0]))'', 8, 11), \<lparr>bare_ref = True, bare_funcall = False\<rparr>),
       (OP, ''.'', (''foo.bar(foo.baz(quux[0]))'', 11, 12), \<lparr>bare_ref = False, bare_funcall = False\<rparr>),
       (NAME, ''baz'', (''foo.bar(foo.baz(quux[0]))'', 12, 15), \<lparr>bare_ref = False, bare_funcall = False\<rparr>),
       (OP, ''('', (''foo.bar(foo.baz(quux[0]))'', 15, 16), \<lparr>bare_ref = False, bare_funcall = False\<rparr>),
       (NAME, ''quux'', (''foo.bar(foo.baz(quux[0]))'', 16, 20), \<lparr>bare_ref = True, bare_funcall = False\<rparr>),
       (OP, ''['', (''foo.bar(foo.baz(quux[0]))'', 20, 21), \<lparr>bare_ref = False, bare_funcall = False\<rparr>),
       (NUMBER, ''0'', (''foo.bar(foo.baz(quux[0]))'', 21, 22), \<lparr>bare_ref = False, bare_funcall = False\<rparr>),
       (OP, '']'', (''foo.bar(foo.baz(quux[0]))'', 22, 23), \<lparr>bare_ref = False, bare_funcall = False\<rparr>),
       (OP, '')'', (''foo.bar(foo.baz(quux[0]))'', 23, 24), \<lparr>bare_ref = False, bare_funcall = False\<rparr>),
       (OP, '')'', (''foo.bar(foo.baz(quux[0]))'', 24, 25), \<lparr>bare_ref = False, bare_funcall = False\<rparr>)]"
  have a: "annotated_tokens python_tokenize ''foo.bar(foo.baz(quux[0]))'' = (atoks, None)"
    unfolding atoks_def by code_simp
  have w: "refs_are_calls ''foo'' atoks"
    unfolding atoks_def by code_simp
  have s: "capture_spec pretty_untokenize ''foo'' atoks
       = [(''foo.bar'', ''foo.bar(foo.baz(quux[0]))''), (''foo.baz'', ''foo.baz(quux[0])'')]"
    unfolding atoks_def by code_simp
  from capture_obj_method_calls_balanced_calls [THEN conjunct1, rule_format,
      where tk = python_tokenize and c = "''foo.bar(foo.baz(quux[0]))''" and untok = pretty_untokenize,
      OF conjI [OF a w]]
  have "capture_obj_method_calls python_tokenize pretty_untokenize ''foo'' ''foo.bar(foo.baz(quux[0]))''
       = Inr (capture_spec pretty_untokenize ''foo'' atoks)"
    by blast
  with s a [unfolded atoks_def] show ?thesis
    by (simp only:)
qed

section \<open>Properties of the scheduler\<close>

lemma test_factor_schedule:
  "memorize_passes_needed python_tokenize pretty_untokenize test_factor []
     = Inr (2, test_state, [''FOO-OBJ'', ''BAR-OBJ'', ''FOO-OBJ'', ''QUUX-OBJ''])"
  by code_simp

lemma build_memorize_code_spec:
  "build_memorize_code tk untok ecode objs mcode0 = Inr mcode \<Longrightarrow>
     (\<forall>obj\<in>set objs. \<exists>args.
         capture_obj_method_calls tk untok obj ecode
           = Inr [(obj @ ''.transform'', obj @ ''.transform'' @ args)]
       \<and> take 1 args = ''(''
       \<and> map_of mcode obj = Some (obj @ ''.memorize_chunk'' @ args))
   \<and> (\<forall>obj. obj \<notin> set objs \<longrightarrow> map_of mcode obj = map_of mcode0 obj)"
proof (induction objs arbitrary: mcode0)
  case Nil
  then show ?case by simp
next
  case (Cons o1 rest)
  from Cons.prems obtain calls where cap: "capture_obj_method_calls tk untok o1 ecode = Inr calls"
    by (auto split: sum.splits)
  from Cons.prems cap have len: "length calls = 1"
    by (auto split: if_splits)
  then obtain cname ccode where calls: "calls = [(cname, ccode)]"
    by (cases calls) auto
  from Cons.prems cap calls have cname: "cname = o1 @ ''.transform''"
    and sw: "startswith ccode (cname @ ''('')"
    and rec: "build_memorize_code tk untok ecode rest
          (AList.update o1 (o1 @ ''.memorize_chunk'' @ drop (length cname) ccode) mcode0)
        = Inr mcode"
    by (auto split: if_splits)
  define args where "args = drop (length cname) ccode"
  from sw have pre: "take (length cname + 1) ccode = cname @ ''(''"
    by (simp add: startswith_def)
  then have "take (length cname) (take (length cname + 1) ccode) = cname"
    by simp
  then have tk1: "take (length cname) ccode = cname"
    by simp
  have ccode: "ccode = cname @ args"
    using append_take_drop_id [of "length cname" ccode] by (simp add: tk1 args_def)
  from pre have a1: "take 1 args = ''(''"
    by (simp add: ccode)
  note IH = Cons.IH [OF rec]
  have mine: "map_of mcode o1 = Some (o1 @ ''.memorize_chunk'' @ args)" if "o1 \<notin> set rest"
    using IH that by (simp add: update_conv' args_def)
  have head: "\<exists>args. capture_obj_method_calls tk untok o1 ecode
           = Inr [(o1 @ ''.transform'', o1 @ ''.transform'' @ args)]
       \<and> take 1 args = ''(''
       \<and> map_of mcode o1 = Some (o1 @ ''.memorize_chunk'' @ args)"
  proof (cases "o1 \<in> set rest")
    case True
    with IH show ?thesis by blast
  next
    case False
    with mine cap calls ccode cname a1 show ?thesis by auto
  qed
  have frame: "\<forall>obj. obj \<notin> set (o1 # rest) \<longrightarrow> map_of mcode obj = map_of mcode0 obj"
    using IH by (simp add: update_conv')
  from head IH frame show ?case by auto
qed

lemma fill_pass_bin_spec:
  "fill_pass_bin tk mcode unsorted objs = Inr pass_bin \<Longrightarrow>
     set pass_bin \<subseteq> set objs
   \<and> (distinct objs \<longrightarrow> distinct pass_bin)
   \<and> (\<forall>obj\<in>set pass_bin. \<exists>m. map_of mcode obj = Some m
          \<and> has_bare_variable_reference tk (set unsorted - {obj}) m = Inr False)"
proof (induction objs arbitrary: pass_bin)
  case Nil
  then show ?case by simp
next
  case (Cons o1 rest)
  from Cons.prems obtain m found pb where m: "map_of mcode o1 = Some m"
    and f: "has_bare_variable_reference tk (set unsorted - {o1}) m = Inr found"
    and rec: "fill_pass_bin tk mcode unsorted rest = Inr pb"
    and pb: "pass_bin = (if \<not> found then o1 # pb else pb)"
    by (auto simp: Let_def split: option.splits sum.splits)
  from Cons.IH [OF rec] m f pb show ?case
    by (cases found) auto
qed

lemma bins_ordered_nth:
  "bins_ordered tk mcode bs \<Longrightarrow> k < length bs \<Longrightarrow> obj \<in> set (bs ! k) \<Longrightarrow>
     \<exists>m. map_of mcode obj = Some m
        \<and> has_bare_variable_reference tk (set (concat (drop k bs)) - {obj}) m = Inr False"
proof (induction bs arbitrary: k)
  case Nil
  then show ?case by simp
next
  case (Cons b bs)
  show ?case
  proof (cases k)
    case 0
    with Cons.prems show ?thesis by simp
  next
    case (Suc j)
    with Cons.prems Cons.IH [of j] show ?thesis by simp
  qed
qed

lemma sort_into_bins_spec:
  "sort_into_bins tk mcode unsorted bins = Inr result \<Longrightarrow> distinct unsorted \<Longrightarrow>
     \<exists>new. result = bins @ new
        \<and> distinct (concat new) \<and> set (concat new) = set unsorted
        \<and> (\<forall>b\<in>set new. b \<noteq> [])
        \<and> bins_ordered tk mcode new"
proof (induction tk mcode unsorted bins arbitrary: result rule: sort_into_bins.induct)
  case (1 tk mcode unsorted bins)
  show ?case
  proof (cases "unsorted = []")
    case True
    with "1.prems" show ?thesis
      by (simp add: sort_into_bins.simps)
  next
    case False
    with "1.prems" obtain pass_bin where
          fill: "fill_pass_bin tk mcode unsorted unsorted = Inr pass_bin"
      and ne: "pass_bin \<noteq> []"
      and rec: "sort_into_bins tk mcode (filter (\<lambda>x. x \<notin> set pass_bin) unsorted)
                  (bins @ [pass_bin]) = Inr result"
      by (subst (asm) sort_into_bins.simps) (auto split: sum.splits if_splits)
    let ?rest = "filter (\<lambda>x. x \<notin> set pass_bin) unsorted"
    from "1.prems" have d: "distinct ?rest" by simp
    from "1.IH" [OF False fill ne rec d] obtain new where
          res: "result = (bins @ [pass_bin]) @ new"
      and dn: "distinct (concat new)" and sn: "set (concat new) = set ?rest"
      and nn: "\<forall>b\<in>set new. b \<noteq> []" and ord: "bins_ordered tk mcode new"
      by blast
    from fill_pass_bin_spec [OF fill] "1.prems" have
          sub: "set pass_bin \<subseteq> set unsorted" and dp: "distinct pass_bin"
      and free: "\<forall>obj\<in>set pass_bin. \<exists>m. map_of mcode obj = Some m
          \<and> has_bare_variable_reference tk (set unsorted - {obj}) m = Inr False"
      by auto
    have un: "set (concat (pass_bin # new)) = set unsorted"
      using sn sub by auto
    have "distinct (concat (pass_bin # new))"
      using dn dp sn by auto
    moreover have "\<forall>b\<in>set (pass_bin # new). b \<noteq> []"
      using nn ne by simp
    moreover have "bins_ordered tk mcode (pass_bin # new)"
      using ord free un by simp
    moreover have "result = bins @ (pass_bin # new)"
      using res by simp
    ultimately show ?thesis
      using un by blast
  qed
qed

lemma sort_into_bins_stuck:
  "unsorted \<noteq> [] \<Longrightarrow> fill_pass_bin tk mcode unsorted unsorted = Inr [] \<Longrightarrow>
     sort_into_bins tk mcode unsorted bins = Inl AssertionError"
  by (subst sort_into_bins.simps) simp

lemma memorize_passes_needed_Inr:
  assumes "memorize_passes_needed tk untok self heap = Inr (n, st, heap')"
  shows "\<exists>i. replace_bare_funcalls tk untok (code self) (new_name_maker (eval_env self)) (0, [], heap)
               = (Inr (eval_code st), (i, transforms st, heap'))
       \<and> has_bare_variable_reference tk (set (map fst (transforms st))) (code self) = Inr False
       \<and> build_memorize_code tk untok (eval_code st) (map fst (transforms st)) [] = Inr (memorize_code st)
       \<and> sort_into_bins tk (memorize_code st) (remdups (map fst (transforms st))) [] = Inr (pass_bins st)
       \<and> n = length (pass_bins st)"
  using assms
  by (auto simp: memorize_passes_needed_def split: prod.splits sum.splits bool.splits)

text \<open>
  Claim C1.  When \<open>memorize_passes_needed\<close> returns, the number it returns is the
  number of pass bins; every allocated instance name is in exactly one bin (the bins
  together list the names of \<open>state["transforms"]\<close>, each once) and no bin is empty;
  and the memorize code of an instance of bin \<open>k\<close> has no bare reference to any other
  instance of bin \<open>k\<close> or of a later bin.  A sweep of the loop that finds no instance
  while some remain does not return: the assertion fails.
\<close>

theorem pass_bins_partition_in_dependency_order:
  assumes "memorize_passes_needed tk untok self heap = Inr (n, st, heap')"
  shows "n = length (pass_bins st)
     \<and> distinct (concat (pass_bins st))
     \<and> set (concat (pass_bins st)) = set (map fst (transforms st))
     \<and> (\<forall>b\<in>set (pass_bins st). b \<noteq> [])
     \<and> (\<forall>k<length (pass_bins st). \<forall>obj\<in>set (pass_bins st ! k).
           \<exists>m. map_of (memorize_code st) obj = Some m
              \<and> has_bare_variable_reference tk
                   (set (concat (drop k (pass_bins st))) - {obj}) m = Inr False)
     \<and> (\<forall>mcode unsorted bins.
           unsorted \<noteq> [] \<and> fill_pass_bin tk mcode unsorted unsorted = Inr []
           \<longrightarrow> sort_into_bins tk mcode unsorted bins = Inl AssertionError)"
proof -
  from memorize_passes_needed_Inr [OF assms] have
        sort: "sort_into_bins tk (memorize_code st) (remdups (map fst (transforms st))) []
                 = Inr (pass_bins st)"
    and n: "n = length (pass_bins st)"
    by auto
  from sort_into_bins_spec [OF sort] have
        d: "distinct (concat (pass_bins st))"
    and s: "set (concat (pass_bins st)) = set (map fst (transforms st))"
    and ne: "\<forall>b\<in>set (pass_bins st). b \<noteq> []"
    and ord: "bins_ordered tk (memorize_code st) (pass_bins st)"
    by auto
  from ord have "\<forall>k<length (pass_bins st). \<forall>obj\<in>set (pass_bins st ! k).
           \<exists>m. map_of (memorize_code st) obj = Some m
              \<and> has_bare_variable_reference tk
                   (set (concat (drop k (pass_bins st))) - {obj}) m = Inr False"
    using bins_ordered_nth by blast
  with n d s ne sort_into_bins_stuck show ?thesis
    by blast
qed

theorem pass_bins_partition_in_dependency_order_witness:
  "memorize_passes_needed python_tokenize pretty_untokenize test_factor []
     = Inr (2, test_state, [''FOO-OBJ'', ''BAR-OBJ'', ''FOO-OBJ'', ''QUUX-OBJ''])
   \<and> distinct (concat (pass_bins test_state))
   \<and> set (concat (pass_bins test_state)) = set (map fst (transforms test_state))
   \<and> has_bare_variable_reference python_tokenize
        (set (concat (drop 1 (pass_bins test_state))) - {''_patsy_stobj1__bar__''})
        ''_patsy_stobj1__bar__.memorize_chunk(_patsy_stobj2__foo__.transform(y))'' = Inr False"
proof -
  note concl = pass_bins_partition_in_dependency_order [OF test_factor_schedule]
  from concl have ordered: "\<forall>k<length (pass_bins test_state). \<forall>obj\<in>set (pass_bins test_state ! k).
           \<exists>m. map_of (memorize_code test_state) obj = Some m
              \<and> has_bare_variable_reference python_tokenize
                   (set (concat (drop k (pass_bins test_state))) - {obj}) m = Inr False"
    by blast
  have k: "1 < length (pass_bins test_state)"
    by (simp add: test_state_def)
  have obj: "''_patsy_stobj1__bar__'' \<in> set (pass_bins test_state ! 1)"
    by (simp add: test_state_def)
  from ordered [rule_format, OF k obj] obtain m where
        m1: "map_of (memorize_code test_state) ''_patsy_stobj1__bar__'' = Some m"
    and m2: "has_bare_variable_reference python_tokenize
               (set (concat (drop 1 (pass_bins test_state))) - {''_patsy_stobj1__bar__''}) m
             = Inr False"
    by blast
  have "map_of (memorize_code test_state) ''_patsy_stobj1__bar__''
      = Some ''_patsy_stobj1__bar__.memorize_chunk(_patsy_stobj2__foo__.transform(y))''"
    by (simp add: test_state_def)
  with m1 have "m = ''_patsy_stobj1__bar__.memorize_chunk(_patsy_stobj2__foo__.transform(y))''"
    by simp
  with m2 concl test_factor_schedule show ?thesis
    by blast
qed

text \<open>
  Claim C5.  When \<open>memorize_passes_needed\<close> returns, the call capturer finds for each
  allocated instance name exactly one call in \<open>eval_code\<close>, the call of
  \<open><instance>.transform\<close>, and the memorize code of the instance is that call text with
  \<open><instance>.transform\<close> replaced by \<open><instance>.memorize_chunk\<close> in front of the
  same argument text, which starts with the opening parenthesis.
\<close>

theorem memorize_code_from_transform_call:
  assumes "memorize_passes_needed tk untok self heap = Inr (n, st, heap')"
  shows "\<forall>obj\<in>set (map fst (transforms st)). \<exists>args.
           capture_obj_method_calls tk untok obj (eval_code st)
             = Inr [(obj @ ''.transform'', obj @ ''.transform'' @ args)]
         \<and> take 1 args = ''(''
         \<and> map_of (memorize_code st) obj = Some (obj @ ''.memorize_chunk'' @ args)"
proof -
  from memorize_passes_needed_Inr [OF assms] have
    "build_memorize_code tk untok (eval_code st) (map fst (transforms st)) [] = Inr (memorize_code st)"
    by auto
  from build_memorize_code_spec [OF this] show ?thesis
    by blast
qed

theorem memorize_code_from_transform_call_witness:
  "memorize_passes_needed python_tokenize pretty_untokenize test_factor []
     = Inr (2, test_state, [''FOO-OBJ'', ''BAR-OBJ'', ''FOO-OBJ'', ''QUUX-OBJ''])
   \<and> (\<exists>args. capture_obj_method_calls python_tokenize pretty_untokenize ''_patsy_stobj1__bar__''
                (eval_code test_state)
             = Inr [(''_patsy_stobj1__bar__'' @ ''.transform'',
                     ''_patsy_stobj1__bar__'' @ ''.transform'' @ args)]
         \<and> take 1 args = ''(''
         \<and> map_of (memorize_code test_state) ''_patsy_stobj1__bar__''
             = Some (''_patsy_stobj1__bar__'' @ ''.memorize_chunk'' @ args))
   \<and> map_of (memorize_code test_state) ''_patsy_stobj1__bar__''
       = Some ''_patsy_stobj1__bar__.memorize_chunk(_patsy_stobj2__foo__.transform(y))''"
proof -
  have "''_patsy_stobj1__bar__'' \<in> set (map fst (transforms test_state))"
    by (simp add: test_state_def)
  with memorize_code_from_transform_call [OF test_factor_schedule]
  have "\<exists>args. capture_obj_method_calls python_tokenize pretty_untokenize ''_patsy_stobj1__bar__''
                (eval_code test_state)
             = Inr [(''_patsy_stobj1__bar__'' @ ''.transform'',
                     ''_patsy_stobj1__bar__'' @ ''.transform'' @ args)]
         \<and> take 1 args = ''(''
         \<and> map_of (memorize_code test_state) ''_patsy_stobj1__bar__''
             = Some (''_patsy_stobj1__bar__'' @ ''.memorize_chunk'' @ args)"
    by blast
  moreover have "map_of (memorize_code test_state) ''_patsy_stobj1__bar__''
       = Some ''_patsy_stobj1__bar__.memorize_chunk(_patsy_stobj2__foo__.transform(y))''"
    by (simp add: test_state_def)
  ultimately show ?thesis
    using test_factor_schedule by blast
qed

text \<open>
  Claim C6.  Scheduling \<open>foo(x) + bar(foo(y)) + quux(z, w)\<close>, with \<open>foo\<close>, \<open>bar\<close> and
  \<open>quux\<close> bound to three stateful-transform factories, allocates four instances,
  returns 2, and gives two pass bins: the first holds the two \<open>foo\<close> instances and the
  \<open>quux\<close> instance, the second holds the \<open>bar\<close> instance only.
\<close>

theorem schedule_of_test_factor:
  "memorize_passes_needed python_tokenize pretty_untokenize test_factor []
     = Inr (2, test_state, [''FOO-OBJ'', ''BAR-OBJ'', ''FOO-OBJ'', ''QUUX-OBJ''])
   \<and> map fst (transforms test_state)
       = [''_patsy_stobj0__foo__'', ''_patsy_stobj1__bar__'',
          ''_patsy_stobj2__foo__'', ''_patsy_stobj3__quux__'']
   \<and> length (pass_bins test_state) = 2
   \<and> map set (pass_bins test_state)
       = [{''_patsy_stobj0__foo__'', ''_patsy_stobj2__foo__'', ''_patsy_stobj3__quux__''},
          {''_patsy_stobj1__bar__''}]"
  using test_factor_schedule by (simp add: test_state_def)

text \<open>
  Claim C7.  The code \<open>foo(_patsy_stobj0__foo__)\<close>, with \<open>foo\<close> a stateful-transform
  factory, has the generated name \<open>_patsy_stobj0__foo__\<close> as a bare reference.  The
  collision check finds it, and \<open>memorize_passes_needed\<close> ends with \<open>NameError\<close> for
  the variable \<open>token\<close>, not with a \<open>PatsyError\<close>.
\<close>

theorem naming_collision_raises_NameError:
  "has_bare_variable_reference python_tokenize (set [''_patsy_stobj0__foo__''])
     (code collision_factor) = Inr True
   \<and> memorize_passes_needed python_tokenize pretty_untokenize collision_factor []
       = Inl (NameError ''token'')"
  by code_simp

lemma replace_loop_no_factory:
  assumes "\<forall>t\<in>set atoks. bare_ref (atok_props t) \<and> bare_funcall (atok_props t)
             \<longrightarrow> (\<forall>init. namespace_get env (atok_text t) \<noteq> Some (Factory init))"
  shows "replace_loop (new_name_maker env) s atoks = (map strip_props atoks, s)"
  using assms
proof (induction atoks)
  case Nil
  then show ?case by simp
next
  case (Cons t rest)
  obtain ty tx orig props where t: "t = (ty, tx, orig, props)"
    by (cases t) auto
  have keep: "new_name_maker env s tx = (tx, s)"
    if "bare_ref props \<and> bare_funcall props"
    using that Cons.prems
    by (cases s) (auto simp: t new_name_maker_def atok_props_def atok_text_def
        split: option.splits py_value.splits)
  from Cons have "replace_loop (new_name_maker env) s rest = (map strip_props rest, s)"
    by simp
  with keep show ?case
    by (simp add: t strip_props_def)
qed

lemma annotate_strip:
  "annotate prev toks None = (atoks, e) \<Longrightarrow> map strip_props atoks = map strip_origin toks"
  by (induction toks arbitrary: prev atoks)
     (auto simp: Let_def strip_props_def strip_origin_def split: prod.splits)

lemma has_ref_loop_empty: "has_ref_loop {} atoks = False"
  by (induction atoks) auto

lemma VarLookupDict_lookup_no_transforms:
  "VarLookupDict_lookup ([VarLookupDict_lookup [data, Map.empty]] @ ns)
     = VarLookupDict_lookup ([data] @ ns)"
  by (rule ext) (simp add: VarLookupDict_lookup_def split: option.splits)

text \<open>
  Claim C8.  When no bare call of the factor's code resolves to a stateful-transform
  factory, \<open>memorize_passes_needed\<close> returns 0 with no transform instance (the object
  store is unchanged), no memorize code and no pass bin, and \<open>eval_code\<close> is the
  normalizer applied to the tokens of the code.  \<open>eval\<close> then gives what evaluating
  that normalized code in the environment with the same data gives, and, the
  factor's code being in normal form (as \<open>EvalFactor.__init__\<close> stores it), what
  evaluating the factor's code itself gives.
\<close>

theorem no_stateful_calls_no_passes:
  fixes self :: "('o, 'd) EvalFactor"
  assumes "tk (code self) = (toks, None)"
    and "\<forall>i<length toks.
           tok_type (toks ! i) = NAME \<and> \<not> (0 < i \<and> tok_text (toks ! (i - 1)) = ''.'')
           \<and> Suc i < length toks \<and> tok_text (toks ! Suc i) = ''(''
           \<longrightarrow> (\<forall>init. namespace_get (eval_env self) (tok_text (toks ! i)) \<noteq> Some (Factory init))"
  shows "memorize_passes_needed tk untok self heap
           = Inr (0, \<lparr>transforms = [], eval_code = untok (map strip_origin toks),
                      memorize_code = [], pass_bins = []\<rparr>, heap)
       \<and> (\<forall>(ev :: ('o, 'd, 'r) evaluator) data.
             EvalFactor_eval ev self
               \<lparr>transforms = [], eval_code = untok (map strip_origin toks),
                memorize_code = [], pass_bins = []\<rparr> data
             = EvalEnvironment_eval ev (eval_env self) (untok (map strip_origin toks)) data)
       \<and> (untok (map strip_origin toks) = code self \<longrightarrow>
            (\<forall>(ev :: ('o, 'd, 'r) evaluator) data.
               EvalFactor_eval ev self
                 \<lparr>transforms = [], eval_code = untok (map strip_origin toks),
                  memorize_code = [], pass_bins = []\<rparr> data
               = EvalEnvironment_eval ev (eval_env self) (code self) data))"
proof -
  obtain atoks e where at: "annotated_tokens tk (code self) = (atoks, e)"
    by (cases "annotated_tokens tk (code self)")
  with assms(1) have ann: "annotate False toks None = (atoks, e)"
    by (simp add: annotated_tokens_def)
  from annotate_failure [OF ann] have e: "e = None" .
  have nofac: "\<forall>t\<in>set atoks. bare_ref (atok_props t) \<and> bare_funcall (atok_props t)
             \<longrightarrow> (\<forall>init. namespace_get (eval_env self) (atok_text t) \<noteq> Some (Factory init))"
  proof (intro ballI impI)
    fix t assume "t \<in> set atoks" and call: "bare_ref (atok_props t) \<and> bare_funcall (atok_props t)"
    then obtain i where i: "i < length atoks" and ti: "t = atoks ! i"
      by (auto simp: in_set_conv_nth)
    from annotate_length [OF ann] i have "i < length toks" by simp
    with annotate_nth [OF ann i] call ti assms(2) [rule_format, of i]
    show "\<forall>init. namespace_get (eval_env self) (atok_text t) \<noteq> Some (Factory init)"
      by (auto simp add: atok_props_def atok_text_def split: if_splits)
  qed
  have rep: "replace_bare_funcalls tk untok (code self) (new_name_maker (eval_env self)) (0, [], heap)
       = (Inr (untok (map strip_origin toks)), (0, [], heap))"
    using at e replace_loop_no_factory [OF nofac] annotate_strip [OF ann]
    by (simp add: replace_bare_funcalls_def raise_failure_def)
  have chk: "has_bare_variable_reference tk (set (map fst [])) (code self) = Inr False"
    using at e by (simp add: has_bare_variable_reference_def has_ref_loop_empty raise_failure_def)
  have sched: "memorize_passes_needed tk untok self heap
           = Inr (0, \<lparr>transforms = [], eval_code = untok (map strip_origin toks),
                      memorize_code = [], pass_bins = []\<rparr>, heap)"
    using chk by (simp add: memorize_passes_needed_def rep sort_into_bins.simps)
  have ev: "EvalFactor_eval ev self
               \<lparr>transforms = [], eval_code = c, memorize_code = [], pass_bins = []\<rparr> data
             = EvalEnvironment_eval ev (eval_env self) c data"
    for ev :: "('o, 'd, 'r) evaluator" and data c
    using VarLookupDict_lookup_no_transforms [of data "namespaces (eval_env self)"]
    by (simp add: EvalFactor_eval_def EvalFactor_eval_code_def EvalEnvironment_eval_def
        transforms_dict_def)
  show ?thesis
    by (intro conjI impI allI) (simp_all only: sched ev)
qed

theorem no_stateful_calls_no_passes_witness:
  "code plain_factor = ''f(x) + y.g(z)''
   \<and> memorize_passes_needed python_tokenize pretty_untokenize plain_factor ([] :: string list)
       = Inr (0, \<lparr>transforms = [], eval_code = ''f(x) + y.g(z)'',
                  memorize_code = [], pass_bins = []\<rparr>, [])
   \<and> (\<forall>(ev :: (string, unit, nat) evaluator) data.
         EvalFactor_eval ev plain_factor
           \<lparr>transforms = [], eval_code = ''f(x) + y.g(z)'', memorize_code = [], pass_bins = []\<rparr>
           data
         = EvalEnvironment_eval ev (eval_env plain_factor) (code plain_factor) data)"
proof -
  define toks :: "token list" where "toks =
      [(NAME, ''f'', (''f(x) + y.g(z)'', 0, 1)), (OP, ''('', (''f(x) + y.g(z)'', 1, 2)),
       (NAME, ''x'', (''f(x) + y.g(z)'', 2, 3)), (OP, '')'', (''f(x) + y.g(z)'', 3, 4)),
       (OP, ''+'', (''f(x) + y.g(z)'', 5, 6)), (NAME, ''y'', (''f(x) + y.g(z)'', 7, 8)),
       (OP, ''.'', (''f(x) + y.g(z)'', 8, 9)), (NAME, ''g'', (''f(x) + y.g(z)'', 9, 10)),
       (OP, ''('', (''f(x) + y.g(z)'', 10, 11)), (NAME, ''z'', (''f(x) + y.g(z)'', 11, 12)),
       (OP, '')'', (''f(x) + y.g(z)'', 12, 13))]"
  have c: "code plain_factor = ''f(x) + y.g(z)''"
    by code_simp
  have t: "python_tokenize (code plain_factor) = (toks, None)"
    unfolding c toks_def by code_simp
  have u: "pretty_untokenize (map strip_origin toks) = ''f(x) + y.g(z)''"
    unfolding toks_def by code_simp
  have f: "namespace_get (eval_env plain_factor) ''f'' = None"
    by (simp add: plain_factor_def EvalFactor_init_def namespace_get_def VarLookupDict_lookup_def
        test_namespace_def)
  have nofac: "\<forall>i<length toks.
           tok_type (toks ! i) = NAME \<and> \<not> (0 < i \<and> tok_text (toks ! (i - 1)) = ''.'')
           \<and> Suc i < length toks \<and> tok_text (toks ! Suc i) = ''(''
           \<longrightarrow> (\<forall>init. namespace_get (eval_env plain_factor) (tok_text (toks ! i))
                  \<noteq> Some (Factory init))"
    using f by (simp add: toks_def All_less_Suc tok_type_def tok_text_def)
  from no_stateful_calls_no_passes [where tk = python_tokenize and self = plain_factor
      and untok = pretty_untokenize and heap = "[]", OF t nofac] u c
  show ?thesis
    by (simp only:) blast
qed

section \<open>The streaming protocol on the mock transform\<close>

lemma mock_schedule:
  "memorize_passes_needed python_tokenize pretty_untokenize mock_factor []
     = Inr (2, mock_state, [mock_obj 0 0 0, mock_obj 0 0 0, mock_obj 0 0 0])"
  by code_simp

lemma mock_pass0_chunk1:
  "memorize_chunk python_eval mock_factor mock_state 0 chunk1
       [mock_obj 0 0 0, mock_obj 0 0 0, mock_obj 0 0 0]
     = (Inr (), [mock_obj 3 1 0, mock_obj 0 0 0, mock_obj 21 1 0])"
  by code_simp

lemma mock_pass0_chunk2:
  "memorize_chunk python_eval mock_factor mock_state 0 chunk2
       [mock_obj 3 1 0, mock_obj 0 0 0, mock_obj 21 1 0]
     = (Inr (), [mock_obj 5 2 0, mock_obj 0 0 0, mock_obj 124 2 0])"
  by code_simp

lemma mock_pass0_finish:
  "memorize_finish MockTransform_memorize_finish mock_state 0
       [mock_obj 5 2 0, mock_obj 0 0 0, mock_obj 124 2 0]
     = (Inr (), [mock_obj 5 2 1, mock_obj 0 0 0, mock_obj 124 2 1])"
  by code_simp

lemma mock_transform_x:
  "MockTransform_transform (mock_obj 5 2 1) (ArrayV [1, 2, 12, - 10]) = ArrayV [- 4, - 3, 7, - 15]"
  by code_simp

lemma mock_pass1_chunk1:
  "memorize_chunk python_eval mock_factor mock_state 1 chunk1
       [mock_obj 5 2 1, mock_obj 0 0 0, mock_obj 124 2 1]
     = (Inr (), [mock_obj 5 2 1, mock_obj (- 227) 1 0, mock_obj 124 2 1])"
  by code_simp

lemma mock_pass1_chunk2:
  "memorize_chunk python_eval mock_factor mock_state 1 chunk2
       [mock_obj 5 2 1, mock_obj (- 227) 1 0, mock_obj 124 2 1]
     = (Inr (), [mock_obj 5 2 1, mock_obj (- 372) 2 0, mock_obj 124 2 1])"
  by code_simp

lemma mock_pass1_finish:
  "memorize_finish MockTransform_memorize_finish mock_state 1
       [mock_obj 5 2 1, mock_obj (- 372) 2 0, mock_obj 124 2 1]
     = (Inr (), [mock_obj 5 2 1, mock_obj (- 372) 2 1, mock_obj 124 2 1])"
  by code_simp

lemma mock_eval:
  "EvalFactor_eval python_eval mock_factor mock_state all_data
       [mock_obj 5 2 1, mock_obj (- 372) 2 1, mock_obj 124 2 1]
     = (Inr (Data (ArrayV [254, 256, 355, 236])),
        [mock_obj 5 2 1, mock_obj (- 372) 2 1, mock_obj 124 2 1])"
  by code_simp

text \<open>
  Claim C9.  End to end, with the transform that accumulates the sum of the memorized
  data and subtracts it: the factor \<open>foo(x) + foo(foo(y))\<close> needs 2 passes; after the
  two pass-0 chunks (\<open>x = [1, 2]\<close>, then \<open>x = [12, -10]\<close>) the instance applied to \<open>x\<close>
  has the sum 5, 2 calls of \<open>memorize_chunk\<close> and 0 of \<open>memorize_finish\<close>; after
  \<open>memorize_finish\<close> of pass 0 its \<open>transform([1, 2, 12, -10])\<close> is
  \<open>[-4, -3, 7, -15]\<close>; after pass 1 over the same two chunks and its
  \<open>memorize_finish\<close>, \<open>eval\<close> on the whole data gives \<open>[254, 256, 355, 236]\<close>.
\<close>

theorem end_to_end_streaming:
  "memorize_passes_needed python_tokenize pretty_untokenize mock_factor []
     = Inr (2, mock_state, [mock_obj 0 0 0, mock_obj 0 0 0, mock_obj 0 0 0])
   \<and> map_of (transforms mock_state) ''_patsy_stobj0__foo__'' = Some 0
   \<and> memorize_chunk python_eval mock_factor mock_state 0 chunk1
         [mock_obj 0 0 0, mock_obj 0 0 0, mock_obj 0 0 0]
       = (Inr (), [mock_obj 3 1 0, mock_obj 0 0 0, mock_obj 21 1 0])
   \<and> memorize_chunk python_eval mock_factor mock_state 0 chunk2
         [mock_obj 3 1 0, mock_obj 0 0 0, mock_obj 21 1 0]
       = (Inr (), [mock_obj 5 2 0, mock_obj 0 0 0, mock_obj 124 2 0])
   \<and> mock_sum ([mock_obj 5 2 0, mock_obj 0 0 0, mock_obj 124 2 0] ! 0) = 5
   \<and> memorize_chunk_called ([mock_obj 5 2 0, mock_obj 0 0 0, mock_obj 124 2 0] ! 0) = 2
   \<and> memorize_finish_called ([mock_obj 5 2 0, mock_obj 0 0 0, mock_obj 124 2 0] ! 0) = 0
   \<and> memorize_finish MockTransform_memorize_finish mock_state 0
         [mock_obj 5 2 0, mock_obj 0 0 0, mock_obj 124 2 0]
       = (Inr (), [mock_obj 5 2 1, mock_obj 0 0 0, mock_obj 124 2 1])
   \<and> MockTransform_transform ([mock_obj 5 2 1, mock_obj 0 0 0, mock_obj 124 2 1] ! 0)
         (ArrayV [1, 2, 12, - 10])
       = ArrayV [- 4, - 3, 7, - 15]
   \<and> memorize_chunk python_eval mock_factor mock_state 1 chunk1
         [mock_obj 5 2 1, mock_obj 0 0 0, mock_obj 124 2 1]
       = (Inr (), [mock_obj 5 2 1, mock_obj (- 227) 1 0, mock_obj 124 2 1])
   \<and> memorize_chunk python_eval mock_factor mock_state 1 chunk2
         [mock_obj 5 2 1, mock_obj (- 227) 1 0, mock_obj 124 2 1]
       = (Inr (), [mock_obj 5 2 1, mock_obj (- 372) 2 0, mock_obj 124 2 1])
   \<and> memorize_finish MockTransform_memorize_finish mock_state 1
         [mock_obj 5 2 1, mock_obj (- 372) 2 0, mock_obj 124 2 1]
       = (Inr (), [mock_obj 5 2 1, mock_obj (- 372) 2 1, mock_obj 124 2 1])
   \<and> EvalFactor_eval python_eval mock_factor mock_state all_data
         [mock_obj 5 2 1, mock_obj (- 372) 2 1, mock_obj 124 2 1]
       = (Inr (Data (ArrayV [254, 256, 355, 236])),
          [mock_obj 5 2 1, mock_obj (- 372) 2 1, mock_obj 124 2 1])"
proof -
  have name: "map_of (transforms mock_state) ''_patsy_stobj0__foo__'' = Some 0"
    by (simp add: mock_state_def)
  have fields: "mock_sum ([mock_obj 5 2 0, mock_obj 0 0 0, mock_obj 124 2 0] ! 0) = 5"
    "memorize_chunk_called ([mock_obj 5 2 0, mock_obj 0 0 0, mock_obj 124 2 0] ! 0) = 2"
    "memorize_finish_called ([mock_obj 5 2 0, mock_obj 0 0 0, mock_obj 124 2 0] ! 0) = 0"
    by (simp_all add: mock_obj_def)
  have tr: "MockTransform_transform ([mock_obj 5 2 1, mock_obj 0 0 0, mock_obj 124 2 1] ! 0)
         (ArrayV [1, 2, 12, - 10]) = ArrayV [- 4, - 3, 7, - 15]"
    using mock_transform_x by simp
  show ?thesis
    by (intro conjI mock_schedule name mock_pass0_chunk1 mock_pass0_chunk2 fields
        mock_pass0_finish tr mock_pass1_chunk1 mock_pass1_chunk2 mock_pass1_finish mock_eval)
qed

end
